theory Spec2Isabelle
  imports Complex_Main "HOL-Library.Word" "HOL-Library.AList"
begin

unbundle bit_operations_syntax

section \<open>Python values, strings and errors\<close>

text \<open>
  The firmware is MicroPython. Its integers are unbounded (\<open>int\<close>), its dictionaries are
  finite maps keyed by strings, and every \<open>raise\<close> is a value \<open>Inl e\<close> of a sum type.
\<close>

datatype pyerror =
  ValueError | TypeError | AttributeError | IndexError | KeyError | OSError | HardwareError

text \<open>
  The values that reach the command handlers: what \<open>ujson.loads\<close> yields for \<open>null\<close>,
  booleans, integers and strings, and objects whose fields are such values. Arrays, nested
  objects and non-integral numbers are not part of the model.
\<close>

datatype atom = ANone | ABool bool | AInt int | AStr string

datatype payload = PAtom atom | PDict "(string \<times> atom) list"

subsection \<open>String helpers\<close>

definition digit_char :: "nat \<Rightarrow> char" where
  "digit_char n = ''0123456789'' ! n"

function str_of_nat :: "nat \<Rightarrow> string" where
  "str_of_nat n = (if n < 10 then [digit_char n] else str_of_nat (n div 10) @ [digit_char (n mod 10)])"
  by pat_completeness auto
termination
  by (relation "measure id") auto

declare str_of_nat.simps [simp del]

text \<open>\<open>str(i)\<close> and \<open>f"{i}"\<close> for an integer.\<close>

definition str_of_int :: "int \<Rightarrow> string" where
  "str_of_int i = (if i < 0 then CHR ''-'' # str_of_nat (nat (- i)) else str_of_nat (nat i))"

text \<open>\<open>f"{i:02d}"\<close> for a non-negative integer: zero-padded to two digits.\<close>

definition fmt_02d :: "int \<Rightarrow> string" where
  "fmt_02d i = (if 0 \<le> i \<and> i < 10 then CHR ''0'' # str_of_int i else str_of_int i)"

definition startswith :: "string \<Rightarrow> string \<Rightarrow> bool" where
  "startswith s p = (take (length p) s = p)"

definition endswith :: "string \<Rightarrow> string \<Rightarrow> bool" where
  "endswith s p = (length p \<le> length s \<and> drop (length s - length p) s = p)"

text \<open>\<open>s.split(c)\<close> for a one-character separator.\<close>

fun split_on :: "char \<Rightarrow> string \<Rightarrow> string list" where
  "split_on c [] = [] # []"
| "split_on c (x # xs) =
     (if x = c then [] # split_on c xs
      else (case split_on c xs of [] \<Rightarrow> [x] # [] | w # ws \<Rightarrow> (x # w) # ws))"

text \<open>\<open>channel.replace('PWM', '')\<close>: every occurrence of \<open>PWM\<close> is removed, left to right.\<close>

function replace_PWM :: "string \<Rightarrow> string" where
  "replace_PWM s =
     (if s = [] then []
      else if take 3 s = ''PWM'' then replace_PWM (drop 3 s)
      else hd s # replace_PWM (tl s))"
  by pat_completeness auto
termination
  by (relation "measure length") auto

declare replace_PWM.simps [simp del]

text \<open>\<open>s.upper()\<close> on ASCII letters.\<close>

definition upper_char :: "char \<Rightarrow> char" where
  "upper_char c =
     (case map_of (zip ''abcdefghijklmnopqrstuvwxyz'' ''ABCDEFGHIJKLMNOPQRSTUVWXYZ'') c of
        Some u \<Rightarrow> u | None \<Rightarrow> c)"

definition upper :: "string \<Rightarrow> string" where
  "upper s = map upper_char s"

subsection \<open>The builtins \<open>int\<close>, \<open>str\<close> and \<open>bool\<close>\<close>

definition is_space :: "char \<Rightarrow> bool" where
  "is_space c = (c \<in> set [CHR '' '', CHR 0x09, CHR 0x0A, CHR 0x0B, CHR 0x0C, CHR 0x0D])"

definition digit_val :: "char \<Rightarrow> int option" where
  "digit_val c =
     map_of [(CHR ''0'', 0), (CHR ''1'', 1), (CHR ''2'', 2), (CHR ''3'', 3), (CHR ''4'', 4),
             (CHR ''5'', 5), (CHR ''6'', 6), (CHR ''7'', 7), (CHR ''8'', 8), (CHR ''9'', 9)] c"

text \<open>Decimal digits, most significant first, onto an accumulator.\<close>

fun digits_value :: "int \<Rightarrow> string \<Rightarrow> int option" where
  "digits_value acc [] = Some acc"
| "digits_value acc (c # cs) =
     (case digit_val c of None \<Rightarrow> None | Some d \<Rightarrow> digits_value (10 * acc + d) cs)"

definition strip :: "string \<Rightarrow> string" where
  "strip s = rev (dropWhile is_space (rev (dropWhile is_space s)))"

text \<open>
  \<open>int(s)\<close> for a string, base ten: surrounding whitespace, an optional sign, at least one
  decimal digit. Anything else raises \<open>ValueError\<close>. (Digit-group underscores are not
  modelled.)
\<close>

definition int_of_string :: "string \<Rightarrow> pyerror + int" where
  "int_of_string s =
     (let t = strip s;
          neg = (t \<noteq> [] \<and> hd t = CHR ''-'');
          ds = (if t \<noteq> [] \<and> (hd t = CHR ''-'' \<or> hd t = CHR ''+'') then tl t else t)
      in if ds = [] then Inl ValueError
         else (case digits_value 0 ds of
                 None \<Rightarrow> Inl ValueError
               | Some n \<Rightarrow> Inr (if neg then - n else n)))"

fun py_int :: "atom \<Rightarrow> pyerror + int" where
  "py_int ANone = Inl TypeError"
| "py_int (ABool b) = Inr (if b then 1 else 0)"
| "py_int (AInt n) = Inr n"
| "py_int (AStr s) = int_of_string s"

fun py_str :: "atom \<Rightarrow> string" where
  "py_str ANone = ''None''"
| "py_str (ABool b) = (if b then ''True'' else ''False'')"
| "py_str (AInt n) = str_of_int n"
| "py_str (AStr s) = s"

text \<open>Truthiness, as \<open>not channel\<close> tests it.\<close>

fun truthy :: "atom \<Rightarrow> bool" where
  "truthy ANone = False"
| "truthy (ABool b) = b"
| "truthy (AInt n) = (n \<noteq> 0)"
| "truthy (AStr s) = (s \<noteq> [])"

section \<open>StateManager\<close>

record StateManager =
  dimmer_levels :: "string \<rightharpoonup> int"
  last_non_zero_levels :: "string \<rightharpoonup> int"
  relay_states :: "string \<rightharpoonup> bool"
  input_states :: "string \<rightharpoonup> bool"
  last_update :: int

definition pwm_key :: "int \<Rightarrow> string" where
  "pwm_key i = ''PWM'' @ str_of_int i"

text \<open>
  \<open>StateManager.__init__\<close>; the argument is the reading of \<open>time.ticks_ms()\<close>.
\<close>

definition state_manager_init :: "int \<Rightarrow> StateManager" where
  "state_manager_init now =
     \<lparr> dimmer_levels = map_of (map (\<lambda>i. (pwm_key (int i), 0)) [0..<16]),
       last_non_zero_levels = map_of (map (\<lambda>i. (pwm_key (int i), 100)) [0..<16]),
       relay_states = [''Relay1'' \<mapsto> False, ''Relay2'' \<mapsto> False],
       input_states = Map.empty,
       last_update = now \<rparr>"

text \<open>
  The values a response dictionary holds, and \<open>get_state\<close>: a dictionary with the four keys
  \<open>dimmers\<close>, \<open>relays\<close>, \<open>inputs\<close> and \<open>timestamp\<close>.
\<close>

datatype rvalue =
  RStr string | RInt int | RError pyerror | RCommand "(string \<times> atom) list"
  | RLevels "string \<rightharpoonup> int" | RFlags "string \<rightharpoonup> bool"

type_synonym response = "(string \<times> rvalue) list"

definition get_state :: "StateManager \<Rightarrow> response" where
  "get_state sm =
     [(''dimmers'', RLevels (dimmer_levels sm)),
      (''relays'', RFlags (relay_states sm)),
      (''inputs'', RFlags (input_states sm)),
      (''timestamp'', RInt (last_update sm))]"

definition update_dimmer :: "int \<Rightarrow> StateManager \<Rightarrow> string \<Rightarrow> int \<Rightarrow> pyerror + StateManager" where
  "update_dimmer now sm channel level =
     (if \<not> (0 \<le> level \<and> level \<le> 100) then Inl ValueError
      else Inr (sm\<lparr> dimmer_levels := (dimmer_levels sm)(channel \<mapsto> level),
                    last_non_zero_levels :=
                      (if level > 0 then (last_non_zero_levels sm)(channel \<mapsto> level)
                       else last_non_zero_levels sm),
                    last_update := now \<rparr>))"

definition update_relay :: "int \<Rightarrow> StateManager \<Rightarrow> string \<Rightarrow> bool \<Rightarrow> pyerror + StateManager" where
  "update_relay now sm relay_name state =
     (if relay_states sm relay_name = None then Inl ValueError
      else Inr (sm\<lparr> relay_states := (relay_states sm)(relay_name \<mapsto> state),
                    last_update := now \<rparr>))"

definition update_inputs :: "int \<Rightarrow> StateManager \<Rightarrow> (string \<rightharpoonup> bool) \<Rightarrow> StateManager" where
  "update_inputs now sm ins =
     sm\<lparr> input_states := input_states sm ++ ins, last_update := now \<rparr>"

section \<open>Hardware layer\<close>

subsection \<open>The I2C bus\<close>

text \<open>
  The bus is the environment of the drivers. Every transaction takes the next tick;
  \<open>fails\<close> says which ticks raise, \<open>incoming\<close> which byte a device returns at a tick.
  \<open>written\<close> records, in order, every (address, register, value) that reached a device.
\<close>

record I2C =
  ticks :: nat
  fails :: "nat \<Rightarrow> bool"
  incoming :: "nat \<Rightarrow> int \<Rightarrow> int"
  written :: "(int \<times> int \<times> int) list"

text \<open>\<open>i2c.writeto(address, bytes([reg, value]))\<close>; \<open>bytes\<close> rejects anything outside 0..255.\<close>

definition writeto :: "int \<Rightarrow> int \<Rightarrow> int \<Rightarrow> I2C \<Rightarrow> (pyerror + unit) \<times> I2C" where
  "writeto addr reg val bus =
     (if \<not> (0 \<le> reg \<and> reg < 256 \<and> 0 \<le> val \<and> val < 256) then (Inl ValueError, bus)
      else if fails bus (ticks bus) then (Inl OSError, bus\<lparr>ticks := Suc (ticks bus)\<rparr>)
      else (Inr (), bus\<lparr>ticks := Suc (ticks bus), written := written bus @ [(addr, reg, val)]\<rparr>))"

text \<open>\<open>i2c.readfrom(address, 1)[0]\<close>.\<close>

definition readfrom :: "int \<Rightarrow> I2C \<Rightarrow> (pyerror + int) \<times> I2C" where
  "readfrom addr bus =
     (if fails bus (ticks bus) then (Inl OSError, bus\<lparr>ticks := Suc (ticks bus)\<rparr>)
      else (Inr (incoming bus (ticks bus) addr), bus\<lparr>ticks := Suc (ticks bus)\<rparr>))"

subsection \<open>I2CDevice\<close>

record I2CDevice =
  address :: int
  is_valid :: bool

text \<open>
  \<open>_retry_operation\<close>: the first argument is the number of attempts left, \<open>retry_count\<close>
  (3) at the call. An attempt that raises is followed by the next one; when none is left
  \<open>HardwareError\<close> is raised.
\<close>

fun retry_operation ::
  "nat \<Rightarrow> (I2C \<Rightarrow> (pyerror + 'a) \<times> I2C) \<Rightarrow> I2C \<Rightarrow> (pyerror + 'a) \<times> I2C" where
  "retry_operation 0 operation bus = (Inl HardwareError, bus)"
| "retry_operation (Suc k) operation bus =
     (case operation bus of
        (Inr r, bus') \<Rightarrow> (Inr r, bus')
      | (Inl e, bus') \<Rightarrow> retry_operation k operation bus')"

definition retry_count :: nat where
  "retry_count = 3"

text \<open>Sequencing of two steps that may raise: the second runs only if the first returned.\<close>

definition and_then ::
  "(pyerror + 'a) \<times> 's \<Rightarrow> ('a \<Rightarrow> 's \<Rightarrow> (pyerror + 'b) \<times> 's) \<Rightarrow> (pyerror + 'b) \<times> 's" where
  "and_then r f = (case r of (Inl e, s) \<Rightarrow> (Inl e, s) | (Inr a, s) \<Rightarrow> f a s)"

subsection \<open>PCF8574 input expander\<close>

text \<open>\<open>PCF8574.read_all\<close>: \<open>None\<close> when the device is absent or the read fails.\<close>

definition read_all :: "I2CDevice \<Rightarrow> I2C \<Rightarrow> int option \<times> I2C" where
  "read_all dev bus =
     (if \<not> is_valid dev then (None, bus)
      else (case retry_operation retry_count (readfrom (address dev)) bus of
              (Inr v, bus') \<Rightarrow> (Some v, bus')
            | (Inl e, bus') \<Rightarrow> (None, bus')))"

subsection \<open>PCA9685 PWM controller\<close>

definition LED0_ON_L :: int where
  "LED0_ON_L = 0x06"

text \<open>\<open>PCA9685._write\<close>: silently nothing when the device is absent.\<close>

definition pca_write :: "I2CDevice \<Rightarrow> int \<Rightarrow> int \<Rightarrow> I2C \<Rightarrow> (pyerror + unit) \<times> I2C" where
  "pca_write dev reg val bus =
     (if \<not> is_valid dev then (Inr (), bus)
      else retry_operation retry_count (writeto (address dev) reg val) bus)"

definition set_pwm :: "I2CDevice \<Rightarrow> int \<Rightarrow> int \<Rightarrow> int \<Rightarrow> I2C \<Rightarrow> (pyerror + unit) \<times> I2C" where
  "set_pwm dev channel on off bus =
     (if \<not> (0 \<le> channel \<and> channel \<le> 15) then (Inl ValueError, bus)
      else if \<not> (0 \<le> on \<and> on \<le> 4095) \<or> \<not> (0 \<le> off \<and> off \<le> 4095) then (Inl ValueError, bus)
      else
        (let base_reg = LED0_ON_L + 4 * channel in
         and_then (pca_write dev base_reg (on AND 0xFF) bus) (\<lambda>_ b1.
         and_then (pca_write dev (base_reg + 1) (drop_bit 8 on) b1) (\<lambda>_ b2.
         and_then (pca_write dev (base_reg + 2) (off AND 0xFF) b2) (\<lambda>_ b3.
         pca_write dev (base_reg + 3) (drop_bit 8 off) b3)))))"

text \<open>
  \<open>PCA9685.set_level\<close>. The level is an integer on every path, so
  \<open>level_percent * 4095\<close> is an integer between 0 and 409500 after the clamp. The true
  division by 100 and \<open>int()\<close> truncate the quotient towards zero; for these operands that
  is the integer quotient \<open>div\<close> (a quotient that is not integral is at least 1/100 away
  from the next integer, far more than the rounding error of a float division).
\<close>

definition set_level :: "I2CDevice \<Rightarrow> int \<Rightarrow> int \<Rightarrow> I2C \<Rightarrow> (pyerror + unit) \<times> I2C" where
  "set_level dev channel level_percent bus =
     (if \<not> (0 \<le> channel \<and> channel \<le> 15) then (Inl ValueError, bus)
      else
        (let level_percent' = max 0 (min 100 level_percent);
             pulse = (level_percent' * 4095) div 100
         in set_pwm dev channel 0 pulse bus))"

subsection \<open>RelayController\<close>

record RelayController =
  relay1 :: int
  relay2 :: int
  states :: "string \<rightharpoonup> bool"

definition relay_controller_init :: RelayController where
  "relay_controller_init =
     \<lparr> relay1 = 0, relay2 = 0, states = [''Relay1'' \<mapsto> False, ''Relay2'' \<mapsto> False] \<rparr>"

definition set_relay :: "RelayController \<Rightarrow> string \<Rightarrow> bool \<Rightarrow> pyerror + RelayController" where
  "set_relay rc relay_name state =
     (if states rc relay_name = None then Inl ValueError
      else Inr (rc\<lparr> relay1 := (if relay_name = ''Relay1'' then (if state then 1 else 0) else relay1 rc),
                    relay2 := (if relay_name \<noteq> ''Relay1'' \<and> relay_name = ''Relay2''
                               then (if state then 1 else 0) else relay2 rc),
                    states := (states rc)(relay_name \<mapsto> state) \<rparr>))"

text \<open>\<open>toggle_relay\<close> returns the new state together with the updated controller.\<close>

definition toggle_relay :: "RelayController \<Rightarrow> string \<Rightarrow> pyerror + bool \<times> RelayController" where
  "toggle_relay rc relay_name =
     (case states rc relay_name of
        None \<Rightarrow> Inl ValueError
      | Some cur \<Rightarrow>
          (let new_state = \<not> cur in
           case set_relay rc relay_name new_state of
             Inl e \<Rightarrow> Inl e
           | Inr rc' \<Rightarrow> Inr (new_state, rc')))"

subsection \<open>HardwareManager\<close>

record HardwareManager =
  i2c :: I2C
  pcf_inputs_1_8 :: I2CDevice
  pcf_inputs_9_16 :: I2CDevice
  pca9685 :: I2CDevice
  relay_controller :: RelayController

text \<open>
  One expander's share of \<open>get_input_states\<close>: for \<open>i\<close> in \<open>range(8)\<close>,
  \<open>states[f"X{i+first:02d}"] = not bool(data & (1 << i))\<close>. The dictionary is an
  association list in insertion order.
\<close>

definition input_entry :: "int \<Rightarrow> int \<Rightarrow> nat \<Rightarrow> string \<times> bool" where
  "input_entry first data i =
     (CHR ''X'' # fmt_02d (int i + first), \<not> (data AND push_bit i 1 \<noteq> 0))"

definition expander_states ::
  "int \<Rightarrow> int \<Rightarrow> (string \<times> bool) list \<Rightarrow> (string \<times> bool) list" where
  "expander_states first data sts =
     fold (\<lambda>i acc. AList.update (fst (input_entry first data i)) (snd (input_entry first data i)) acc)
          [0..<8] sts"

definition get_input_states :: "HardwareManager \<Rightarrow> (string \<times> bool) list \<times> HardwareManager" where
  "get_input_states hw =
     (let (pcf1_data, bus1) =
            (if is_valid (pcf_inputs_1_8 hw) then read_all (pcf_inputs_1_8 hw) (i2c hw)
             else (None, i2c hw));
          states1 = (case pcf1_data of None \<Rightarrow> [] | Some d \<Rightarrow> expander_states 1 d []);
          (pcf2_data, bus2) =
            (if is_valid (pcf_inputs_9_16 hw) then read_all (pcf_inputs_9_16 hw) bus1
             else (None, bus1));
          states2 = (case pcf2_data of None \<Rightarrow> states1 | Some d \<Rightarrow> expander_states 9 d states1)
      in (states2, hw\<lparr>i2c := bus2\<rparr>))"

section \<open>Application layer\<close>

text \<open>
  What \<open>MQTTManager.publish_dimmer_state\<close> and \<open>publish_relay_state\<close> hand to the broker:
  the index in the topic, and the payload (\<open>{"state": ..., "brightness": ...}\<close> for a
  dimmer, \<open>ON\<close> or \<open>OFF\<close> for a relay).
\<close>

datatype publication = DimmerState int string int | RelayState int string

definition publish_dimmer_state :: "publication list \<Rightarrow> int \<Rightarrow> int \<Rightarrow> publication list" where
  "publish_dimmer_state out channel_index percent =
     out @ [DimmerState channel_index (if percent > 0 then ''ON'' else ''OFF'') percent]"

definition publish_relay_state :: "publication list \<Rightarrow> int \<Rightarrow> bool \<Rightarrow> publication list" where
  "publish_relay_state out relay_index is_on =
     out @ [RelayState relay_index (if is_on then ''ON'' else ''OFF'')]"

text \<open>
  The application object. The command processor and the input scanner hold references to
  the same state manager and hardware manager, so their methods act on this record.
  \<open>mqtt\<close> is \<open>None\<close> when there is no MQTT manager, otherwise what has been published;
  \<open>base_topic\<close> is the configured \<open>mqtt.base_topic\<close>.
\<close>

record KC868Application =
  state_manager :: StateManager
  hardware_manager :: HardwareManager
  mqtt :: "publication list option"
  base_topic :: string

definition with_bus :: "KC868Application \<Rightarrow> I2C \<Rightarrow> KC868Application" where
  "with_bus app bus = app\<lparr>hardware_manager := (hardware_manager app)\<lparr>i2c := bus\<rparr>\<rparr>"

definition with_relays :: "KC868Application \<Rightarrow> RelayController \<Rightarrow> KC868Application" where
  "with_relays app rc = app\<lparr>hardware_manager := (hardware_manager app)\<lparr>relay_controller := rc\<rparr>\<rparr>"

subsection \<open>CommandProcessor\<close>

text \<open>\<open>command.get(key)\<close>: \<open>None\<close> for a missing key.\<close>

definition dict_get :: "(string \<times> atom) list \<Rightarrow> string \<Rightarrow> atom" where
  "dict_get d k = (case map_of d k of None \<Rightarrow> ANone | Some v \<Rightarrow> v)"

definition handle_dimmer_command ::
  "int \<Rightarrow> (string \<times> atom) list \<Rightarrow> KC868Application \<Rightarrow> (pyerror + unit) \<times> KC868Application" where
  "handle_dimmer_command now command app =
     (let channel = dict_get command ''channel'' in
      case py_int (case map_of command ''value'' of None \<Rightarrow> AInt 0 | Some v \<Rightarrow> v) of
        Inl e \<Rightarrow> (Inl e, app)
      | Inr val \<Rightarrow>
          if \<not> truthy channel then (Inl ValueError, app)
          else
            (case channel of
               AStr ch \<Rightarrow>
                 if \<not> startswith ch ''PWM'' then (Inl ValueError, app)
                 else
                   (case int_of_string (replace_PWM ch) of
                      Inl e \<Rightarrow> (Inl e, app)
                    | Inr channel_num \<Rightarrow>
                        if \<not> (0 \<le> channel_num \<and> channel_num \<le> 15) then (Inl ValueError, app)
                        else
                          (case set_level (pca9685 (hardware_manager app)) channel_num val
                                  (i2c (hardware_manager app)) of
                             (Inl e, bus') \<Rightarrow> (Inl e, with_bus app bus')
                           | (Inr _, bus') \<Rightarrow>
                               (case update_dimmer now (state_manager app) ch val of
                                  Inl e \<Rightarrow> (Inl e, with_bus app bus')
                                | Inr sm' \<Rightarrow> (Inr (), (with_bus app bus')\<lparr>state_manager := sm'\<rparr>))))
             | _ \<Rightarrow> (Inl AttributeError, app)))"

definition handle_relay_command ::
  "int \<Rightarrow> (string \<times> atom) list \<Rightarrow> KC868Application \<Rightarrow> (pyerror + unit) \<times> KC868Application" where
  "handle_relay_command now command app =
     (case dict_get command ''channel'' of
        AStr ch \<Rightarrow>
          if relay_states (state_manager app) ch = None then (Inl ValueError, app)
          else
            (case toggle_relay (relay_controller (hardware_manager app)) ch of
               Inl e \<Rightarrow> (Inl e, app)
             | Inr (new_state, rc') \<Rightarrow>
                 (case update_relay now (state_manager app) ch new_state of
                    Inl e \<Rightarrow> (Inl e, with_relays app rc')
                  | Inr sm' \<Rightarrow> (Inr (), (with_relays app rc')\<lparr>state_manager := sm'\<rparr>)))
      | _ \<Rightarrow> (Inl ValueError, app))"

text \<open>The two dictionaries that \<open>process_command\<close> builds itself.\<close>

definition success_response :: "(string \<times> atom) list \<Rightarrow> response" where
  "success_response command = [(''status'', RStr ''success''), (''command'', RCommand command)]"

definition error_response :: "pyerror \<Rightarrow> response" where
  "error_response e = [(''status'', RStr ''error''), (''message'', RError e)]"

definition finish ::
  "(string \<times> atom) list \<Rightarrow> (pyerror + unit) \<times> KC868Application \<Rightarrow> response \<times> KC868Application" where
  "finish command r =
     (case r of (Inl e, app') \<Rightarrow> (error_response e, app')
              | (Inr _, app') \<Rightarrow> (success_response command, app'))"

text \<open>
  \<open>process_command\<close>. A command that is not a dictionary has no \<open>get\<close>: the
  \<open>AttributeError\<close> is caught like every other exception.
\<close>

definition process_command ::
  "int \<Rightarrow> payload \<Rightarrow> KC868Application \<Rightarrow> response \<times> KC868Application" where
  "process_command now command app =
     (case command of
        PAtom a \<Rightarrow> (error_response AttributeError, app)
      | PDict cmd \<Rightarrow>
          (let command_type = dict_get cmd ''type'' in
           if command_type = AStr ''set_dimmer'' then finish cmd (handle_dimmer_command now cmd app)
           else if command_type = AStr ''toggle_relay'' then finish cmd (handle_relay_command now cmd app)
           else if command_type = AStr ''get_state'' then (get_state (state_manager app), app)
           else (error_response ValueError, app)))"

subsection \<open>InputScanner\<close>

text \<open>Equality of two dictionaries given as association lists with distinct keys.\<close>

definition dict_eq :: "(string \<times> bool) list \<Rightarrow> (string \<times> bool) list \<Rightarrow> bool" where
  "dict_eq a b =
     (list_all (\<lambda>(k, v). map_of b k = Some v) a \<and> list_all (\<lambda>(k, v). map_of a k = Some v) b)"

text \<open>
  The entries the loop logs: \<open>prev_state is None or prev_state != state\<close>, over
  \<open>current_inputs.items()\<close>.
\<close>

definition changed_entries ::
  "(string \<times> bool) list \<Rightarrow> (string \<times> bool) list \<Rightarrow> (string \<times> bool) list" where
  "changed_entries prev_inputs current_inputs =
     filter (\<lambda>(input_name, state).
               case map_of prev_inputs input_name of None \<Rightarrow> True | Some prev_state \<Rightarrow> prev_state \<noteq> state)
            current_inputs"

text \<open>
  One pass of the body of \<open>_scan_loop\<close>: the debug notifications it emits, the new
  \<open>prev_inputs\<close>, and the application afterwards. \<open>get_input_states\<close> raises nothing, so
  the handler of the loop has no case here.
\<close>

definition scan_iteration ::
  "int \<Rightarrow> (string \<times> bool) list \<Rightarrow> KC868Application
     \<Rightarrow> (string \<times> bool) list \<times> (string \<times> bool) list \<times> KC868Application" where
  "scan_iteration now prev_inputs app =
     (let (current_inputs, hw') = get_input_states (hardware_manager app) in
      if \<not> dict_eq current_inputs prev_inputs then
        (changed_entries prev_inputs current_inputs,
         current_inputs,
         app\<lparr> hardware_manager := hw',
              state_manager := update_inputs now (state_manager app) (map_of current_inputs) \<rparr>)
      else ([], prev_inputs, app\<lparr>hardware_manager := hw'\<rparr>))"

subsection \<open>The MQTT command handler\<close>

text \<open>\<open>int(topic.split('/')[2])\<close>.\<close>

definition topic_index :: "string \<Rightarrow> pyerror + int" where
  "topic_index topic =
     (let parts = split_on CHR ''/'' topic in
      if length parts \<le> 2 then Inl IndexError else int_of_string (parts ! 2))"

text \<open>
  The value of \<open>level\<close> when the decoding block of the dimmer branch is left: \<open>None\<close>
  when no assignment was reached, and the exception of \<open>int(payload['brightness'])\<close>
  when that raises.
\<close>

definition resolve_level :: "payload \<Rightarrow> pyerror + int option" where
  "resolve_level p =
     (case p of
        PDict d \<Rightarrow>
          (case (case map_of d ''brightness'' of
                   None \<Rightarrow> Inr None
                 | Some b \<Rightarrow> (case py_int b of Inl e \<Rightarrow> Inl e | Inr n \<Rightarrow> Inr (Some n))) of
             Inl e \<Rightarrow> Inl e
           | Inr level \<Rightarrow>
               (case map_of d ''state'' of
                  None \<Rightarrow> Inr level
                | Some s \<Rightarrow>
                    (let state_str = upper (py_str s) in
                     if state_str = ''OFF'' then Inr (Some 0)
                     else if state_str = ''ON'' \<and> level = None then Inr (Some 100)
                     else Inr level)))
      | PAtom (AStr s) \<Rightarrow>
          (let up = upper s in
           if up = ''OFF'' then Inr (Some 0)
           else if up = ''ON'' then Inr (Some 100)
           else (case int_of_string s of Inl e \<Rightarrow> Inr (Some 0) | Inr n \<Rightarrow> Inr (Some n)))
      | PAtom a \<Rightarrow> (case py_int a of Inl e \<Rightarrow> Inr (Some 0) | Inr n \<Rightarrow> Inr (Some n)))"

text \<open>The desired relay state; \<open>current\<close> is \<open>relay_states[channel]\<close>.\<close>

definition resolve_desired :: "payload \<Rightarrow> bool \<Rightarrow> bool" where
  "resolve_desired p current =
     (case p of
        PAtom (AStr s) \<Rightarrow> (upper s = ''ON'')
      | PAtom a \<Rightarrow> \<not> current
      | PDict d \<Rightarrow>
          (case map_of d ''state'' of
             Some v \<Rightarrow> (upper (py_str v) = ''ON'')
           | None \<Rightarrow> \<not> current))"

text \<open>The body of the \<open>try\<close> block of \<open>_on_mqtt_command\<close>.\<close>

definition mqtt_command_body ::
  "int \<Rightarrow> string \<Rightarrow> payload \<Rightarrow> KC868Application \<Rightarrow> (pyerror + unit) \<times> KC868Application" where
  "mqtt_command_body now topic p app =
     (let base = base_topic app in
      if startswith topic (base @ ''/dimmer/'') \<and> endswith topic ''/set'' then
        (case topic_index topic of
           Inl e \<Rightarrow> (Inl e, app)
         | Inr idx \<Rightarrow>
             (case resolve_level p of
                Inl e \<Rightarrow> (Inl e, app)
              | Inr level \<Rightarrow>
                  if 0 \<le> idx \<and> idx \<le> 15 then
                    (case level of
                       None \<Rightarrow> (Inl TypeError, app)
                     | Some l \<Rightarrow>
                         (let lv = max 0 (min 100 l) in
                          case set_level (pca9685 (hardware_manager app)) idx lv
                                 (i2c (hardware_manager app)) of
                            (Inl e, bus') \<Rightarrow> (Inl e, with_bus app bus')
                          | (Inr _, bus') \<Rightarrow>
                              (case update_dimmer now (state_manager app) (pwm_key idx) lv of
                                 Inl e \<Rightarrow> (Inl e, with_bus app bus')
                               | Inr sm' \<Rightarrow>
                                   (Inr (),
                                    (with_bus app bus')
                                      \<lparr> state_manager := sm',
                                        mqtt := map_option (\<lambda>out. publish_dimmer_state out idx lv)
                                                  (mqtt app) \<rparr>))))
                  else (Inr (), app)))
      else if startswith topic (base @ ''/relay/'') \<and> endswith topic ''/set'' then
        (case topic_index topic of
           Inl e \<Rightarrow> (Inl e, app)
         | Inr idx \<Rightarrow>
             (let channel = ''Relay'' @ str_of_int idx in
              case relay_states (state_manager app) channel of
                None \<Rightarrow> (Inr (), app)
              | Some current \<Rightarrow>
                  (let desired = resolve_desired p current in
                   case set_relay (relay_controller (hardware_manager app)) channel desired of
                     Inl e \<Rightarrow> (Inl e, app)
                   | Inr rc' \<Rightarrow>
                       (case update_relay now (state_manager app) channel desired of
                          Inl e \<Rightarrow> (Inl e, with_relays app rc')
                        | Inr sm' \<Rightarrow>
                            (Inr (),
                             (with_relays app rc')
                               \<lparr> state_manager := sm',
                                 mqtt := map_option (\<lambda>out. publish_relay_state out idx desired)
                                           (mqtt app) \<rparr>)))))
      else (Inr (), app))"

text \<open>\<open>_on_mqtt_command\<close>: whatever the body raises is logged and dropped.\<close>

definition on_mqtt_command :: "int \<Rightarrow> string \<Rightarrow> payload \<Rightarrow> KC868Application \<Rightarrow> KC868Application" where
  "on_mqtt_command now topic p app = snd (mqtt_command_body now topic p app)"

section \<open>Notions used by the properties\<close>

text \<open>
  The 12-bit OFF count carried by the last two register writes on the bus
  (\<open>LEDn_OFF_L\<close>, then \<open>LEDn_OFF_H\<close>): the duty value the PWM controller received last.
\<close>

definition last_duty :: "I2C \<Rightarrow> int" where
  "last_duty bus =
     (case rev (written bus) of
        (a_hi, r_hi, hi) # (a_lo, r_lo, lo) # rest \<Rightarrow> lo + 256 * hi
      | _ \<Rightarrow> 0)"

text \<open>The duty value in the words of the specification: \<open>round(level * 4095 / 100)\<close>.\<close>

definition spec_duty :: "int \<Rightarrow> int" where
  "spec_duty level = round (real_of_int (level * 4095) / 100)"


text \<open>The two copies of the relay state agree on both relays.\<close>

definition relays_agree :: "KC868Application \<Rightarrow> bool" where
  "relays_agree app =
     (states (relay_controller (hardware_manager app)) ''Relay1''
        = relay_states (state_manager app) ''Relay1'' \<and>
      states (relay_controller (hardware_manager app)) ''Relay2''
        = relay_states (state_manager app) ''Relay2'')"

text \<open>
  The states the application can be in: it starts with a fresh state manager and a fresh
  relay controller, and then runs direct commands, MQTT commands and input scans.
\<close>

inductive reachable :: "KC868Application \<Rightarrow> bool" where
  start:
    "state_manager app = state_manager_init now \<Longrightarrow>
     relay_controller (hardware_manager app) = relay_controller_init \<Longrightarrow> reachable app"
| direct: "reachable app \<Longrightarrow> reachable (snd (process_command now command app))"
| bus_message: "reachable app \<Longrightarrow> reachable (on_mqtt_command now topic p app)"
| scan: "reachable app \<Longrightarrow> reachable (snd (snd (scan_iteration now prev_inputs app)))"

text \<open>\<open>snapshot["dimmers"][channel]\<close> of a snapshot returned by \<open>get_state\<close>.\<close>

definition snapshot_dimmer :: "response \<Rightarrow> string \<Rightarrow> int option" where
  "snapshot_dimmer snap channel =
     (case map_of snap ''dimmers'' of Some (RLevels m) \<Rightarrow> m channel | _ \<Rightarrow> None)"

text \<open>\<open>snapshot["relays"][relay]\<close>.\<close>

definition snapshot_relay :: "response \<Rightarrow> string \<Rightarrow> bool option" where
  "snapshot_relay snap relay =
     (case map_of snap ''relays'' of Some (RFlags m) \<Rightarrow> m relay | _ \<Rightarrow> None)"


subsection \<open>A concrete board\<close>

text \<open>
  A bus on which no transaction fails and every read returns \<open>0xA5\<close>, the three
  devices at their configured addresses, and the application right after start-up with
  the default base topic.
\<close>

definition good_bus :: I2C where
  "good_bus = \<lparr> ticks = 0, fails = (\<lambda>n. False), incoming = (\<lambda>n addr. 0xA5), written = [] \<rparr>"

definition board :: "I2C \<Rightarrow> HardwareManager" where
  "board bus =
     \<lparr> i2c = bus,
       pcf_inputs_1_8 = \<lparr> address = 0x3A, is_valid = True \<rparr>,
       pcf_inputs_9_16 = \<lparr> address = 0x21, is_valid = True \<rparr>,
       pca9685 = \<lparr> address = 0x40, is_valid = True \<rparr>,
       relay_controller = relay_controller_init \<rparr>"

definition fresh_app :: KC868Application where
  "fresh_app =
     \<lparr> state_manager = state_manager_init 0,
       hardware_manager = board good_bus,
       mqtt = Some [],
       base_topic = ''kc868-ap'' \<rparr>"

definition set_dimmer_command :: "string \<Rightarrow> int \<Rightarrow> payload" where
  "set_dimmer_command channel val =
     PDict [(''type'', AStr ''set_dimmer''), (''channel'', AStr channel), (''value'', AInt val)]"

definition toggle_relay_command :: "string \<Rightarrow> payload" where
  "toggle_relay_command channel = PDict [(''type'', AStr ''toggle_relay''), (''channel'', AStr channel)]"

section \<open>Properties\<close>

subsection \<open>Evaluation and channel names\<close>

lemmas str_eval = str_of_int_def str_of_nat.simps digit_char_def

lemmas parse_eval = int_of_string_def strip_def is_space_def digit_val_def replace_PWM.simps
  startswith_def endswith_def upper_def upper_char_def

lemmas bus_eval = set_level_def set_pwm_def and_then_def pca_write_def retry_count_def
  numeral_3_eq_3 writeto_def readfrom_def LED0_ON_L_def Let_def

lemmas board_eval = fresh_app_def board_def good_bus_def relay_controller_init_def
  state_manager_init_def with_bus_def with_relays_def

lemmas direct_eval = process_command_def set_dimmer_command_def toggle_relay_command_def
  dict_get_def handle_dimmer_command_def handle_relay_command_def finish_def
  success_response_def error_response_def update_dimmer_def update_relay_def
  toggle_relay_def set_relay_def

lemma int_0_15_cases:
  "0 \<le> (c::int) \<Longrightarrow> c \<le> 15 \<Longrightarrow> c \<in> {0, 1, 2, 3, 4, 5, 6, 7, 8, 9, 10, 11, 12, 13, 14, 15}"
  by (simp, arith)

lemma pwm_key_parse:
  assumes "0 \<le> c" "c \<le> 15"
  shows "startswith (pwm_key c) ''PWM'' \<and> int_of_string (replace_PWM (pwm_key c)) = Inr c
         \<and> pwm_key c \<noteq> []"
  using int_0_15_cases [OF assms]
  apply (elim insertE emptyE)
  apply (simp_all add: pwm_key_def str_eval parse_eval)
  done

lemma init_levels:
  assumes "0 \<le> c" "c \<le> 15"
  shows "dimmer_levels (state_manager_init now) (pwm_key c) = Some 0
         \<and> last_non_zero_levels (state_manager_init now) (pwm_key c) = Some 100"
  using int_0_15_cases [OF assms]
  apply (elim insertE emptyE)
  apply (simp_all add: state_manager_init_def pwm_key_def str_eval upt_rec)
  done

subsection \<open>What a register write does to the bus\<close>

lemma retry_writeto:
  assumes "0 \<le> reg" "reg < 256" "0 \<le> val" "val < 256"
  shows "(\<exists>bus'. retry_operation k (writeto a reg val) bus = (Inr (), bus') \<and>
                 written bus' = written bus @ [(a, reg, val)]) \<or>
         (\<exists>bus'. retry_operation k (writeto a reg val) bus = (Inl HardwareError, bus') \<and>
                 written bus' = written bus)"
proof (induction k arbitrary: bus)
  case 0
  show ?case by simp
next
  case (Suc k)
  show ?case
  proof (cases "fails bus (ticks bus)")
    case True
    then have "retry_operation (Suc k) (writeto a reg val) bus =
               retry_operation k (writeto a reg val) (bus\<lparr>ticks := Suc (ticks bus)\<rparr>)"
      using assms by (simp add: writeto_def)
    then show ?thesis using Suc [of "bus\<lparr>ticks := Suc (ticks bus)\<rparr>"] by simp
  next
    case False
    then show ?thesis using assms by (simp add: writeto_def)
  qed
qed

lemma pca_write_cases:
  assumes "0 \<le> reg" "reg < 256" "0 \<le> val" "val < 256" "is_valid dev"
  shows "(\<exists>bus'. pca_write dev reg val bus = (Inr (), bus') \<and>
                 written bus' = written bus @ [(address dev, reg, val)]) \<or>
         (\<exists>bus'. pca_write dev reg val bus = (Inl HardwareError, bus') \<and>
                 written bus' = written bus)"
  using retry_writeto [OF assms(1-4)] assms(5) by (simp add: pca_write_def)

lemma low_byte_mod: "(x::int) AND 0xFF = x mod 256"
  using take_bit_eq_mask [of 8 x] by (simp add: take_bit_eq_mod mask_eq_exp_minus_1)

lemma high_byte_div: "drop_bit 8 (x::int) = x div 256"
  by (simp add: drop_bit_eq_div)


lemma set_pwm_cases:
  assumes v: "is_valid dev" and c: "0 \<le> ch" "ch \<le> 15" and o: "0 \<le> off" "off \<le> 4095"
  shows "(\<exists>bus'. set_pwm dev ch 0 off bus = (Inr (), bus') \<and>
            written bus' = written bus @
              [(address dev, 6 + 4 * ch, 0), (address dev, 7 + 4 * ch, 0),
               (address dev, 8 + 4 * ch, off mod 256), (address dev, 9 + 4 * ch, off div 256)]) \<or>
         (\<exists>bus'. set_pwm dev ch 0 off bus = (Inl HardwareError, bus'))"
proof -
  let ?a = "address dev"
  have hi: "0 \<le> off div 256 \<and> off div 256 < 256" using o by auto
  have lo: "0 \<le> off mod 256 \<and> off mod 256 < 256" by simp
  have unfold: "set_pwm dev ch 0 off bus =
      and_then (pca_write dev (6 + 4 * ch) 0 bus) (\<lambda>_ b1.
      and_then (pca_write dev (7 + 4 * ch) 0 b1) (\<lambda>_ b2.
      and_then (pca_write dev (8 + 4 * ch) (off mod 256) b2) (\<lambda>_ b3.
      pca_write dev (9 + 4 * ch) (off div 256) b3)))"
    using c o by (simp add: set_pwm_def LED0_ON_L_def Let_def low_byte_mod high_byte_div add.commute)
  consider b1 where "pca_write dev (6 + 4 * ch) 0 bus = (Inr (), b1)"
      "written b1 = written bus @ [(?a, 6 + 4 * ch, 0)]"
    | b1 where "pca_write dev (6 + 4 * ch) 0 bus = (Inl HardwareError, b1)"
    using pca_write_cases [of "6 + 4 * ch" 0 dev bus] v c by auto
  then show ?thesis
  proof cases
    case 2
    then show ?thesis by (simp add: unfold and_then_def)
  next
    case w1: 1
    consider b2 where "pca_write dev (7 + 4 * ch) 0 b1 = (Inr (), b2)"
        "written b2 = written b1 @ [(?a, 7 + 4 * ch, 0)]"
      | b2 where "pca_write dev (7 + 4 * ch) 0 b1 = (Inl HardwareError, b2)"
      using pca_write_cases [of "7 + 4 * ch" 0 dev b1] v c by auto
    then show ?thesis
    proof cases
      case 2
      then show ?thesis using w1 by (simp add: unfold and_then_def)
    next
      case w2: 1
      consider b3 where "pca_write dev (8 + 4 * ch) (off mod 256) b2 = (Inr (), b3)"
          "written b3 = written b2 @ [(?a, 8 + 4 * ch, off mod 256)]"
        | b3 where "pca_write dev (8 + 4 * ch) (off mod 256) b2 = (Inl HardwareError, b3)"
        using pca_write_cases [of "8 + 4 * ch" "off mod 256" dev b2] v c lo by auto
      then show ?thesis
      proof cases
        case 2
        then show ?thesis using w1 w2 by (simp add: unfold and_then_def)
      next
        case w3: 1
        consider b4 where "pca_write dev (9 + 4 * ch) (off div 256) b3 = (Inr (), b4)"
            "written b4 = written b3 @ [(?a, 9 + 4 * ch, off div 256)]"
          | b4 where "pca_write dev (9 + 4 * ch) (off div 256) b3 = (Inl HardwareError, b4)"
          using pca_write_cases [of "9 + 4 * ch" "off div 256" dev b3] v c hi by auto
        then show ?thesis
        proof cases
          case 2
          then show ?thesis using w1 w2 w3 by (simp add: unfold and_then_def)
        next
          case w4: 1
          then show ?thesis using w1 w2 w3 by (simp add: unfold and_then_def)
        qed
      qed
    qed
  qed
qed

lemma duty_range:
  "0 \<le> (max 0 (min 100 (lvl::int)) * 4095) div 100 \<and> (max 0 (min 100 lvl) * 4095) div 100 \<le> 4095"
  by (auto simp: max_def min_def)

lemma set_level_cases:
  assumes v: "is_valid dev" and c: "0 \<le> ch" "ch \<le> 15"
  shows "(\<exists>bus'. set_level dev ch lvl bus = (Inr (), bus') \<and>
            written bus' = written bus @
              [(address dev, 6 + 4 * ch, 0), (address dev, 7 + 4 * ch, 0),
               (address dev, 8 + 4 * ch, ((max 0 (min 100 lvl) * 4095) div 100) mod 256),
               (address dev, 9 + 4 * ch, ((max 0 (min 100 lvl) * 4095) div 100) div 256)]) \<or>
         (\<exists>bus'. set_level dev ch lvl bus = (Inl HardwareError, bus'))"
  using set_pwm_cases [OF v c, of "(max 0 (min 100 lvl) * 4095) div 100" bus] duty_range [of lvl] c
  by (simp add: set_level_def Let_def)

lemma set_pwm_ok:
  assumes "\<forall>n. \<not> fails bus n" "0 \<le> ch" "ch \<le> 15" "0 \<le> off" "off \<le> 4095"
  shows "\<exists>bus'. set_pwm dev ch 0 off bus = (Inr (), bus')"
proof -
  have hi: "0 \<le> off div 256 \<and> off div 256 < 256" using assms by auto
  have lo: "0 \<le> off mod 256 \<and> off mod 256 < 256" by simp
  show ?thesis
    using assms hi lo
    by (simp add: set_pwm_def and_then_def pca_write_def retry_count_def numeral_3_eq_3
        writeto_def LED0_ON_L_def Let_def low_byte_mod high_byte_div)
qed

lemma set_level_ok:
  assumes "\<forall>n. \<not> fails bus n" "0 \<le> ch" "ch \<le> 15"
  shows "\<exists>bus'. set_level dev ch lvl bus = (Inr (), bus')"
  using set_pwm_ok [OF assms, of "(max 0 (min 100 lvl) * 4095) div 100" dev] duty_range [of lvl] assms
  by (simp only: set_level_def Let_def) simp

lemma handle_dimmer_unfold:
  assumes "0 \<le> c" "c \<le> 15"
  shows "handle_dimmer_command now
           [(''type'', AStr ''set_dimmer''), (''channel'', AStr (pwm_key c)), (''value'', AInt v)] app =
         (case set_level (pca9685 (hardware_manager app)) c v (i2c (hardware_manager app)) of
            (Inl e, bus') \<Rightarrow> (Inl e, with_bus app bus')
          | (Inr _, bus') \<Rightarrow>
              (case update_dimmer now (state_manager app) (pwm_key c) v of
                 Inl e \<Rightarrow> (Inl e, with_bus app bus')
               | Inr sm' \<Rightarrow> (Inr (), (with_bus app bus')\<lparr>state_manager := sm'\<rparr>)))"
  using assms pwm_key_parse [OF assms]
  by (simp add: handle_dimmer_command_def dict_get_def)

subsection \<open>Start-up state\<close>

lemma init_domains:
  "dom (dimmer_levels (state_manager_init now)) = pwm_key ` {0..15}
   \<and> dom (last_non_zero_levels (state_manager_init now)) = pwm_key ` {0..15}"
proof -
  have "{0..15::int} = int ` {0..<16}"
    by (simp add: image_int_atLeastLessThan atLeastLessThanPlusOne_atLeastAtMost_int [symmetric])
  then have k: "pwm_key ` {0..15} = (\<lambda>i. pwm_key (int i)) ` {0..<16}"
    by (simp add: image_image)
  have "dom (dimmer_levels (state_manager_init now)) = (\<lambda>i. pwm_key (int i)) ` {0..<16}"
    "dom (last_non_zero_levels (state_manager_init now)) = (\<lambda>i. pwm_key (int i)) ` {0..<16}"
    by (simp_all add: state_manager_init_def dom_map_of_conv_image_fst image_image del: upt_Suc)
  then show ?thesis by (simp only: k)
qed

text \<open>
  C5 (as the code has it). At start-up every dimmer level is 0, every entry of
  \<open>last_non_zero_levels\<close> is 100 (not 0), both relays are off and the input map is
  empty: for every channel \<open>c\<close> in 0..15 the two dictionaries hold 0 and 100 under
  \<open>PWM<c>\<close> and have no other keys, the relay dictionary holds \<open>False\<close> for exactly
  \<open>Relay1\<close> and \<open>Relay2\<close>, and no input is known.
\<close>

theorem startup_defaults:
  assumes "0 \<le> c" "c \<le> 15"
  shows "dimmer_levels (state_manager_init now) (pwm_key c) = Some 0
         \<and> last_non_zero_levels (state_manager_init now) (pwm_key c) = Some 100
         \<and> dom (dimmer_levels (state_manager_init now)) = pwm_key ` {0..15}
         \<and> dom (last_non_zero_levels (state_manager_init now)) = pwm_key ` {0..15}
         \<and> relay_states (state_manager_init now) ''Relay1'' = Some False
         \<and> relay_states (state_manager_init now) ''Relay2'' = Some False
         \<and> dom (relay_states (state_manager_init now)) = {''Relay1'', ''Relay2''}
         \<and> input_states (state_manager_init now) = Map.empty"
proof -
  have "dom (relay_states (state_manager_init now)) = {''Relay1'', ''Relay2''}"
    by (auto simp: state_manager_init_def)
  then show ?thesis
    using init_levels [OF assms, of now] init_domains [of now] by (simp add: state_manager_init_def)
qed

theorem startup_defaults_witness:
  "(0::int) \<le> 3 \<and> (3::int) \<le> 15
   \<and> dimmer_levels (state_manager_init 7) ''PWM3'' = Some 0
   \<and> last_non_zero_levels (state_manager_init 7) ''PWM3'' = Some 100
   \<and> input_states (state_manager_init 7) = Map.empty"
  using startup_defaults [of 3 7] by (simp add: pwm_key_def str_eval)

text \<open>
  C5 as stated fails: the entry of \<open>last_non_zero_levels\<close> for channel 0 is not 0 at
  start-up.
\<close>

theorem startup_last_level_counterexample:
  "\<not> (last_non_zero_levels (state_manager_init 0) (pwm_key 0) = Some 0)"
  by (simp add: state_manager_init_def pwm_key_def str_eval upt_rec)

subsection \<open>Setting a dimmer through the direct command\<close>

lemma last_duty_four:
  "written bus' = ws @ [w1, w2, (a1, r1, lo), (a2, r2, hi)] \<Longrightarrow> last_duty bus' = lo + 256 * hi"
  by (simp add: last_duty_def)

lemma set_dimmer_present:
  assumes c: "0 \<le> c" "c \<le> 15" and l: "0 \<le> level" "level \<le> 100"
    and v: "is_valid (pca9685 (hardware_manager app))"
    and run: "process_command now (set_dimmer_command (pwm_key c) level) app = (resp, app')"
  shows "(map_of resp ''status'' = Some (RStr ''success'') \<longrightarrow>
            snapshot_dimmer (get_state (state_manager app')) (pwm_key c) = Some level
            \<and> written (i2c (hardware_manager app')) =
                written (i2c (hardware_manager app)) @
                  [(address (pca9685 (hardware_manager app)), 6 + 4 * c, 0),
                   (address (pca9685 (hardware_manager app)), 7 + 4 * c, 0),
                   (address (pca9685 (hardware_manager app)), 8 + 4 * c, (level * 4095 div 100) mod 256),
                   (address (pca9685 (hardware_manager app)), 9 + 4 * c, (level * 4095 div 100) div 256)]
            \<and> last_duty (i2c (hardware_manager app')) = level * 4095 div 100
            \<and> 0 \<le> level * 4095 div 100 \<and> level * 4095 div 100 \<le> 4095)
         \<and> (map_of resp ''status'' \<noteq> Some (RStr ''success'') \<longrightarrow>
              map_of resp ''status'' = Some (RStr ''error'')
              \<and> state_manager app' = state_manager app)
         \<and> ((\<forall>n. \<not> fails (i2c (hardware_manager app)) n) \<longrightarrow>
              map_of resp ''status'' = Some (RStr ''success''))"
proof -
  let ?hw = "hardware_manager app"
  let ?d = "level * 4095 div 100"
  have clamp: "max 0 (min 100 level) = level" using l by simp
  have rng: "0 \<le> ?d \<and> ?d \<le> 4095" using duty_range [of level] by (simp only: clamp)
  have upd: "update_dimmer now (state_manager app) (pwm_key c) level =
      Inr ((state_manager app)\<lparr> dimmer_levels := (dimmer_levels (state_manager app))(pwm_key c \<mapsto> level),
             last_non_zero_levels :=
               (if level > 0 then (last_non_zero_levels (state_manager app))(pwm_key c \<mapsto> level)
                else last_non_zero_levels (state_manager app)),
             last_update := now \<rparr>)"
    using l by (simp add: update_dimmer_def)
  have run': "(resp, app') = finish
      [(''type'', AStr ''set_dimmer''), (''channel'', AStr (pwm_key c)), (''value'', AInt level)]
      (case set_level (pca9685 ?hw) c level (i2c ?hw) of
         (Inl e, bus') \<Rightarrow> (Inl e, with_bus app bus')
       | (Inr _, bus') \<Rightarrow>
           (case update_dimmer now (state_manager app) (pwm_key c) level of
              Inl e \<Rightarrow> (Inl e, with_bus app bus')
            | Inr sm' \<Rightarrow> (Inr (), (with_bus app bus')\<lparr>state_manager := sm'\<rparr>)))"
    using run handle_dimmer_unfold [OF c, of now level app]
    by (simp add: process_command_def set_dimmer_command_def dict_get_def)
  consider bus' where "set_level (pca9685 ?hw) c level (i2c ?hw) = (Inr (), bus')"
      "written bus' = written (i2c ?hw) @
          [(address (pca9685 ?hw), 6 + 4 * c, 0), (address (pca9685 ?hw), 7 + 4 * c, 0),
           (address (pca9685 ?hw), 8 + 4 * c, ?d mod 256),
           (address (pca9685 ?hw), 9 + 4 * c, ?d div 256)]"
    | bus' where "set_level (pca9685 ?hw) c level (i2c ?hw) = (Inl HardwareError, bus')"
    using set_level_cases [OF v c, of level "i2c ?hw"] by (auto simp only: clamp)
  then show ?thesis
  proof cases
    case 1
    have duty: "last_duty bus' = ?d"
      using last_duty_four [OF 1(2)] by simp
    from run' 1(1) upd have "resp = success_response
        [(''type'', AStr ''set_dimmer''), (''channel'', AStr (pwm_key c)), (''value'', AInt level)]"
      and app': "app' = (with_bus app bus')\<lparr>state_manager :=
         (state_manager app)\<lparr> dimmer_levels := (dimmer_levels (state_manager app))(pwm_key c \<mapsto> level),
             last_non_zero_levels :=
               (if level > 0 then (last_non_zero_levels (state_manager app))(pwm_key c \<mapsto> level)
                else last_non_zero_levels (state_manager app)),
             last_update := now \<rparr>\<rparr>"
      by (simp_all add: finish_def)
    then have st: "map_of resp ''status'' = Some (RStr ''success'')"
      by (simp add: success_response_def)
    have snap: "snapshot_dimmer (get_state (state_manager app')) (pwm_key c) = Some level"
      by (simp add: app' snapshot_dimmer_def get_state_def)
    have bus: "i2c (hardware_manager app') = bus'"
      by (simp add: app' with_bus_def)
    show ?thesis
      using st snap rng duty 1(2) by (simp only: bus) simp
  next
    case 2
    have ok: "\<not> (\<forall>n. \<not> fails (i2c ?hw) n)"
      using set_level_ok [of "i2c ?hw" c "pca9685 ?hw" level] c 2 by auto
    from run' 2 have "resp = error_response HardwareError" "app' = with_bus app bus'"
      by (simp_all add: finish_def)
    then show ?thesis using ok
      by (simp add: error_response_def with_bus_def)
  qed
qed

lemma set_level_absent:
  assumes "\<not> is_valid dev" "0 \<le> ch" "ch \<le> 15"
  shows "set_level dev ch lvl bus = (Inr (), bus)"
  using assms duty_range [of lvl]
  by (simp add: set_level_def set_pwm_def Let_def and_then_def pca_write_def)

lemma set_dimmer_absent:
  assumes c: "0 \<le> c" "c \<le> 15" and l: "0 \<le> level" "level \<le> 100"
    and v: "\<not> is_valid (pca9685 (hardware_manager app))"
    and run: "process_command now (set_dimmer_command (pwm_key c) level) app = (resp, app')"
  shows "map_of resp ''status'' = Some (RStr ''success'')
         \<and> snapshot_dimmer (get_state (state_manager app')) (pwm_key c) = Some level
         \<and> i2c (hardware_manager app') = i2c (hardware_manager app)"
proof -
  have "(resp, app') = finish
      [(''type'', AStr ''set_dimmer''), (''channel'', AStr (pwm_key c)), (''value'', AInt level)]
      (case set_level (pca9685 (hardware_manager app)) c level (i2c (hardware_manager app)) of
         (Inl e, bus') \<Rightarrow> (Inl e, with_bus app bus')
       | (Inr _, bus') \<Rightarrow>
           (case update_dimmer now (state_manager app) (pwm_key c) level of
              Inl e \<Rightarrow> (Inl e, with_bus app bus')
            | Inr sm' \<Rightarrow> (Inr (), (with_bus app bus')\<lparr>state_manager := sm'\<rparr>)))"
    using run handle_dimmer_unfold [OF c, of now level app]
    by (simp add: process_command_def set_dimmer_command_def dict_get_def)
  then have "resp = success_response
        [(''type'', AStr ''set_dimmer''), (''channel'', AStr (pwm_key c)), (''value'', AInt level)]"
    and "app' = (with_bus app (i2c (hardware_manager app)))\<lparr>state_manager :=
         (state_manager app)\<lparr> dimmer_levels := (dimmer_levels (state_manager app))(pwm_key c \<mapsto> level),
             last_non_zero_levels :=
               (if level > 0 then (last_non_zero_levels (state_manager app))(pwm_key c \<mapsto> level)
                else last_non_zero_levels (state_manager app)),
             last_update := now \<rparr>\<rparr>"
    using l by (simp_all add: set_level_absent [OF v c] update_dimmer_def finish_def)
  then show ?thesis
    by (simp add: success_response_def snapshot_dimmer_def get_state_def with_bus_def)
qed

text \<open>
  C1 (as the code has it). For every channel \<open>c\<close> in 0..15 and every level in 0..100, a
  \<open>set_dimmer\<close> command for \<open>PWM<c>\<close> ends in one of two ways. With status \<open>success\<close>: the
  snapshot then reports \<open>dimmers[PWM<c>]\<close> equal to the level, and, when the PWM
  controller is present, exactly four register writes reached it, the last two carrying
  the duty value \<open>level * 4095 div 100\<close> (the quotient truncated, not rounded), which lies
  in 0..4095; when the controller is absent nothing is written. Otherwise with status
  \<open>error\<close>, the state manager untouched. On a bus without failures, and whenever the
  controller is absent, the status is \<open>success\<close>.
\<close>

theorem set_dimmer_level_and_duty:
  assumes c: "0 \<le> c" "c \<le> 15" and l: "0 \<le> level" "level \<le> 100"
    and run: "process_command now (set_dimmer_command (pwm_key c) level) app = (resp, app')"
  shows "(map_of resp ''status'' = Some (RStr ''success'') \<longrightarrow>
            snapshot_dimmer (get_state (state_manager app')) (pwm_key c) = Some level
            \<and> (is_valid (pca9685 (hardware_manager app)) \<longrightarrow>
                 written (i2c (hardware_manager app')) =
                   written (i2c (hardware_manager app)) @
                     [(address (pca9685 (hardware_manager app)), 6 + 4 * c, 0),
                      (address (pca9685 (hardware_manager app)), 7 + 4 * c, 0),
                      (address (pca9685 (hardware_manager app)), 8 + 4 * c, (level * 4095 div 100) mod 256),
                      (address (pca9685 (hardware_manager app)), 9 + 4 * c, (level * 4095 div 100) div 256)]
                 \<and> last_duty (i2c (hardware_manager app')) = level * 4095 div 100)
            \<and> (\<not> is_valid (pca9685 (hardware_manager app)) \<longrightarrow>
                 i2c (hardware_manager app') = i2c (hardware_manager app))
            \<and> 0 \<le> level * 4095 div 100 \<and> level * 4095 div 100 \<le> 4095)
         \<and> (map_of resp ''status'' \<noteq> Some (RStr ''success'') \<longrightarrow>
              map_of resp ''status'' = Some (RStr ''error'')
              \<and> state_manager app' = state_manager app)
         \<and> ((\<forall>n. \<not> fails (i2c (hardware_manager app)) n) \<longrightarrow>
              map_of resp ''status'' = Some (RStr ''success''))
         \<and> (\<not> is_valid (pca9685 (hardware_manager app)) \<longrightarrow>
              map_of resp ''status'' = Some (RStr ''success''))"
proof (cases "is_valid (pca9685 (hardware_manager app))")
  case True
  show ?thesis
    using set_dimmer_present [OF c l True run] True by blast
next
  case False
  have clamp: "max 0 (min 100 level) = level" using l by simp
  have "0 \<le> level * 4095 div 100 \<and> level * 4095 div 100 \<le> 4095"
    using duty_range [of level] by (simp only: clamp)
  then show ?thesis
    using set_dimmer_absent [OF c l False run] False by simp
qed

theorem set_dimmer_level_and_duty_witness:
  "(0::int) \<le> 3 \<and> (3::int) \<le> 15 \<and> (0::int) \<le> 42 \<and> (42::int) \<le> 100
   \<and> is_valid (pca9685 (hardware_manager fresh_app))
   \<and> snapshot_dimmer
        (get_state (state_manager (snd (process_command 0 (set_dimmer_command (pwm_key 3) 42) fresh_app))))
        (pwm_key 3) = Some 42
   \<and> last_duty (i2c (hardware_manager (snd (process_command 0 (set_dimmer_command (pwm_key 3) 42) fresh_app))))
        = 1719"
proof -
  have v: "is_valid (pca9685 (hardware_manager fresh_app))"
    by (simp add: fresh_app_def board_def)
  have ok: "\<forall>n. \<not> fails (i2c (hardware_manager fresh_app)) n"
    by (simp add: fresh_app_def board_def good_bus_def)
  have run: "process_command 0 (set_dimmer_command (pwm_key 3) 42) fresh_app =
      (fst (process_command 0 (set_dimmer_command (pwm_key 3) 42) fresh_app),
       snd (process_command 0 (set_dimmer_command (pwm_key 3) 42) fresh_app))"
    by simp
  show ?thesis
    using set_dimmer_level_and_duty [OF _ _ _ _ run] ok v by simp
qed

text \<open>
  C1 as stated fails: for level 1 on channel 0 the duty value written is 40, whereas
  \<open>round(1 * 4095 / 100)\<close> is 41.
\<close>

theorem duty_rounding_counterexample:
  "last_duty (i2c (hardware_manager (snd (process_command 0 (set_dimmer_command ''PWM0'' 1) fresh_app))))
     \<noteq> spec_duty 1"
proof -
  have "last_duty (i2c (hardware_manager (snd (process_command 0 (set_dimmer_command ''PWM0'' 1) fresh_app))))
          = 40"
    by (simp add: direct_eval parse_eval bus_eval board_eval last_duty_def)
  moreover have "spec_duty 1 = 41"
    by (simp add: spec_duty_def round_def)
  ultimately show ?thesis by simp
qed

text \<open>
  C3 at the input \<open>{"type": "set_dimmer", "channel": "PWM3", "value": 150}\<close> on a fresh
  board: the command is answered with status \<open>error\<close> and the state manager is as
  before, but four bus transactions have already written the clamped level (duty 4095,
  bytes 255 and 15) into the registers of channel 3.
\<close>

theorem out_of_range_level_reaches_hardware:
  "map_of (fst (process_command 0 (set_dimmer_command ''PWM3'' 150) fresh_app)) ''status''
     = Some (RStr ''error'')
   \<and> state_manager (snd (process_command 0 (set_dimmer_command ''PWM3'' 150) fresh_app))
     = state_manager fresh_app
   \<and> written (i2c (hardware_manager (snd (process_command 0 (set_dimmer_command ''PWM3'' 150) fresh_app))))
     = [(0x40, 18, 0), (0x40, 19, 0), (0x40, 20, 255), (0x40, 21, 15)]
   \<and> written (i2c (hardware_manager fresh_app)) = []
   \<and> ticks (i2c (hardware_manager (snd (process_command 0 (set_dimmer_command ''PWM3'' 150) fresh_app))))
     = 4"
  by (simp add: direct_eval parse_eval bus_eval board_eval)

subsection \<open>Responses of the direct command interface\<close>





subsection \<open>Reading the inputs\<close>

lemma map_of_expander_states:
  "map_of (expander_states first d sts) =
     fold (\<lambda>i m. m(fst (input_entry first d i) \<mapsto> snd (input_entry first d i))) [0..<8] (map_of sts)"
proof -
  have "map_of (fold (\<lambda>i acc. AList.update (f i) (g i) acc) is sts) =
        fold (\<lambda>i m. m(f i \<mapsto> g i)) is (map_of sts)" for f :: "nat \<Rightarrow> string" and g :: "nat \<Rightarrow> bool" and "is"
    by (induction "is" arbitrary: sts) (simp_all add: update_conv')
  then show ?thesis by (simp add: expander_states_def)
qed

lemma distinct_expander_states:
  "distinct (map fst sts) \<Longrightarrow> distinct (map fst (expander_states first d sts))"
proof -
  have "distinct (map fst sts) \<Longrightarrow>
        distinct (map fst (fold (\<lambda>i acc. AList.update (f i) (g i) acc) is sts))"
    for f :: "nat \<Rightarrow> string" and g :: "nat \<Rightarrow> bool" and "is"
    by (induction "is" arbitrary: sts) (simp_all add: distinct_update)
  then show "distinct (map fst sts) \<Longrightarrow> distinct (map fst (expander_states first d sts))"
    by (simp add: expander_states_def)
qed

lemma input_keys_1:
  "map (\<lambda>i. fst (input_entry 1 d i)) [0..<8] =
     [''X01'', ''X02'', ''X03'', ''X04'', ''X05'', ''X06'', ''X07'', ''X08'']"
  by (simp add: input_entry_def fmt_02d_def str_eval upt_rec)

lemma input_keys_9:
  "map (\<lambda>i. fst (input_entry 9 d i)) [0..<8] =
     [''X09'', ''X10'', ''X11'', ''X12'', ''X13'', ''X14'', ''X15'', ''X16'']"
  by (simp add: input_entry_def fmt_02d_def str_eval upt_rec)

lemma input_value: "snd (input_entry first d i) = (\<not> bit d i)"
  by (simp add: input_entry_def bit_iff_and_push_bit_not_eq_0)


lemma fold_upd_lookup:
  "distinct (map f is) \<Longrightarrow> i \<in> set is \<Longrightarrow>
     fold (\<lambda>i m. m(f i \<mapsto> g i)) is m (f i) = Some (g i)"
proof (induction "is" arbitrary: m)
  case Nil
  then show ?case by simp
next
  case (Cons j js)
  have other: "k \<notin> f ` set js \<Longrightarrow> fold (\<lambda>i m. m(f i \<mapsto> g i)) js m' k = m' k" for k m'
    by (induction js arbitrary: m') auto
  show ?case
  proof (cases "i \<in> set js")
    case True
    then show ?thesis using Cons by simp
  next
    case False
    then have ij: "i = j" using Cons.prems by simp
    have "f j \<notin> f ` set js" using Cons.prems by simp
    then have "fold (\<lambda>i m. m(f i \<mapsto> g i)) js (m(f j \<mapsto> g j)) (f j) = (m(f j \<mapsto> g j)) (f j)"
      by (rule other)
    then show ?thesis unfolding ij by (simp only: fold.simps o_apply fun_upd_same)
  qed
qed

lemma fold_upd_other:
  "k \<notin> f ` set is \<Longrightarrow> fold (\<lambda>i m. m(f i \<mapsto> g i)) is m k = m k"
  by (induction "is" arbitrary: m) auto

lemma expander_lookup:
  assumes "i < 8" "first = 1 \<or> first = 9"
  shows "map_of (expander_states first d sts) (CHR ''X'' # fmt_02d (int i + first)) = Some (\<not> bit d i)"
proof -
  let ?f = "\<lambda>i. fst (input_entry first d i)"
  let ?g = "\<lambda>i. snd (input_entry first d i)"
  have "distinct (map ?f [0..<8])"
    using assms(2) input_keys_1 [of d] input_keys_9 [of d] by (elim disjE) (simp_all only:, simp_all)
  moreover have "i \<in> set [0..<8]" using assms(1) by simp
  ultimately have "fold (\<lambda>i m. m(?f i \<mapsto> ?g i)) [0..<8] (map_of sts) (?f i) = Some (?g i)"
    by (rule fold_upd_lookup)
  then show ?thesis
    by (simp only: map_of_expander_states input_value) (simp add: input_entry_def)
qed

lemma expander_9_keeps_1:
  assumes "i < 8"
  shows "map_of (expander_states 9 d sts) (CHR ''X'' # fmt_02d (int i + 1)) =
         map_of sts (CHR ''X'' # fmt_02d (int i + 1))"
proof -
  let ?f = "\<lambda>i. fst (input_entry 9 d i)"
  let ?g = "\<lambda>i. snd (input_entry 9 d i)"
  have "CHR ''X'' # fmt_02d (int i + 1) \<in> set (map (\<lambda>i. fst (input_entry 1 d i)) [0..<8])"
    using assms by (simp add: input_entry_def)
  then have "CHR ''X'' # fmt_02d (int i + 1) \<notin> set (map ?f [0..<8])"
    by (simp only: input_keys_1 input_keys_9) auto
  then have "CHR ''X'' # fmt_02d (int i + 1) \<notin> ?f ` set [0..<8]" by simp
  then have "fold (\<lambda>i m. m(?f i \<mapsto> ?g i)) [0..<8] (map_of sts) (CHR ''X'' # fmt_02d (int i + 1))
      = map_of sts (CHR ''X'' # fmt_02d (int i + 1))"
    by (rule fold_upd_other)
  then show ?thesis by (simp only: map_of_expander_states)
qed

lemma get_input_states_unfold:
  assumes "read_all (pcf_inputs_1_8 hw) (i2c hw) = (r1, bus1)"
    and "read_all (pcf_inputs_9_16 hw) bus1 = (r2, bus2)"
  shows "get_input_states hw =
    ((case r2 of None \<Rightarrow> (case r1 of None \<Rightarrow> [] | Some d \<Rightarrow> expander_states 1 d [])
              | Some d2 \<Rightarrow> expander_states 9 d2 (case r1 of None \<Rightarrow> [] | Some d \<Rightarrow> expander_states 1 d [])),
     hw\<lparr>i2c := bus2\<rparr>)"
proof -
  have 1: "(if is_valid (pcf_inputs_1_8 hw) then read_all (pcf_inputs_1_8 hw) (i2c hw) else (None, i2c hw))
        = (r1, bus1)"
    using assms(1) by (auto simp: read_all_def)
  have 2: "(if is_valid (pcf_inputs_9_16 hw) then read_all (pcf_inputs_9_16 hw) bus1 else (None, bus1))
        = (r2, bus2)"
    using assms(2) by (auto simp: read_all_def)
  show ?thesis
    by (simp add: get_input_states_def 1 2 Let_def)
qed

text \<open>
  C8. For every input line: with \<open>r1\<close> and \<open>r2\<close> the bytes read from the two expanders
  (\<open>None\<close> when an expander is absent or its read fails) and \<open>i\<close> in 0..7, the entry
  \<open>X01\<close>..\<open>X08\<close> for bit \<open>i\<close> of the first byte, and the entry \<open>X09\<close>..\<open>X16\<close> for bit
  \<open>i\<close> of the second, is the negation of that bit: a bit 0 is reported as \<open>True\<close>, a bit
  1 as \<open>False\<close>.
\<close>

theorem inputs_are_active_low:
  assumes "read_all (pcf_inputs_1_8 hw) (i2c hw) = (r1, bus1)"
    and "read_all (pcf_inputs_9_16 hw) bus1 = (r2, bus2)"
    and "i < 8"
  shows "(r1 = Some d \<longrightarrow>
            map_of (fst (get_input_states hw)) (CHR ''X'' # fmt_02d (int i + 1)) = Some (\<not> bit d i))
         \<and> (r2 = Some d \<longrightarrow>
            map_of (fst (get_input_states hw)) (CHR ''X'' # fmt_02d (int i + 9)) = Some (\<not> bit d i))"
  using assms(3)
  by (auto simp: get_input_states_unfold [OF assms(1,2)] expander_lookup expander_9_keeps_1
      split: option.splits)

theorem inputs_are_active_low_witness:
  "(0::nat) < 8 \<and> (1::nat) < 8
   \<and> fst (read_all (pcf_inputs_1_8 (board good_bus)) (i2c (board good_bus))) = Some 0xA5
   \<and> bit (0xA5::int) 0 \<and> \<not> bit (0xA5::int) 1
   \<and> map_of (fst (get_input_states (board good_bus))) ''X01'' = Some False
   \<and> map_of (fst (get_input_states (board good_bus))) ''X02'' = Some True"
proof -
  let ?hw = "board good_bus"
  have r1f: "fst (read_all (pcf_inputs_1_8 ?hw) (i2c ?hw)) = Some 0xA5"
    by (simp add: read_all_def board_def good_bus_def retry_count_def numeral_3_eq_3 readfrom_def)
  have r1: "read_all (pcf_inputs_1_8 ?hw) (i2c ?hw) =
      (fst (read_all (pcf_inputs_1_8 ?hw) (i2c ?hw)), snd (read_all (pcf_inputs_1_8 ?hw) (i2c ?hw)))"
    by simp
  have r2: "read_all (pcf_inputs_9_16 ?hw) (snd (read_all (pcf_inputs_1_8 ?hw) (i2c ?hw))) =
      (fst (read_all (pcf_inputs_9_16 ?hw) (snd (read_all (pcf_inputs_1_8 ?hw) (i2c ?hw)))),
       snd (read_all (pcf_inputs_9_16 ?hw) (snd (read_all (pcf_inputs_1_8 ?hw) (i2c ?hw)))))"
    by simp
  have b: "bit (0xA5::int) 0" "\<not> bit (0xA5::int) 1"
    by (simp_all add: bit_iff_odd)
  show ?thesis
    using inputs_are_active_low [OF r1 r2, of 0 "0xA5"] inputs_are_active_low [OF r1 r2, of 1 "0xA5"] b r1f
    by (simp add: fmt_02d_def str_eval)
qed

subsection \<open>One pass of the input scanner\<close>

lemma dict_eq_unfold:
  "dict_eq a b \<longleftrightarrow>
     (\<forall>k v. (k, v) \<in> set a \<longrightarrow> map_of b k = Some v) \<and>
     (\<forall>k v. (k, v) \<in> set b \<longrightarrow> map_of a k = Some v)"
  unfolding dict_eq_def list_all_iff by (simp add: split_beta) (metis fst_conv snd_conv prod.collapse)

lemma dict_eq_iff:
  assumes "distinct (map fst a)" "distinct (map fst b)"
  shows "dict_eq a b \<longleftrightarrow> map_of a = map_of b"
proof
  assume eq: "dict_eq a b"
  show "map_of a = map_of b"
  proof
    fix k
    show "map_of a k = map_of b k"
    proof (cases "map_of a k")
      case (Some v)
      then have "(k, v) \<in> set a" by (rule map_of_SomeD)
      then have "map_of b k = Some v" using eq unfolding dict_eq_unfold by blast
      then show ?thesis using Some by simp
    next
      case None
      show ?thesis
      proof (cases "map_of b k")
        case None': None
        then show ?thesis using None by simp
      next
        case (Some v)
        then have "(k, v) \<in> set b" by (rule map_of_SomeD)
        then have "map_of a k = Some v" using eq unfolding dict_eq_unfold by blast
        then show ?thesis using None by simp
      qed
    qed
  qed
next
  assume e: "map_of a = map_of b"
  have "map_of b k = Some v" if "(k, v) \<in> set a" for k v
  proof -
    have "map_of a k = Some v" using that assms(1) by simp
    then show ?thesis by (simp only: e)
  qed
  moreover have "map_of a k = Some v" if "(k, v) \<in> set b" for k v
  proof -
    have "map_of b k = Some v" using that assms(2) by simp
    then show ?thesis by (simp only: e)
  qed
  ultimately show "dict_eq a b"
    unfolding dict_eq_unfold by blast
qed

lemma changed_entries_iff:
  assumes "distinct (map fst cur)"
  shows "(k, v) \<in> set (changed_entries prev cur) \<longleftrightarrow>
           map_of cur k = Some v \<and> map_of prev k \<noteq> Some v"
  using assms by (auto simp: changed_entries_def split: option.splits)

lemma distinct_changed_entries:
  "distinct (map fst cur) \<Longrightarrow> distinct (map fst (changed_entries prev cur))"
  by (simp add: changed_entries_def distinct_map_filter)

lemma distinct_get_input_states: "distinct (map fst (fst (get_input_states hw)))"
proof -
  obtain r1 bus1 where 1: "read_all (pcf_inputs_1_8 hw) (i2c hw) = (r1, bus1)" by fastforce
  obtain r2 bus2 where 2: "read_all (pcf_inputs_9_16 hw) bus1 = (r2, bus2)" by fastforce
  show ?thesis
    by (simp add: get_input_states_unfold [OF 1 2] distinct_expander_states split: option.splits)
qed

lemma fresh_inputs:
  "fst (get_input_states (hardware_manager fresh_app)) =
     [(''X01'', False), (''X02'', True), (''X03'', False), (''X04'', True),
      (''X05'', True), (''X06'', False), (''X07'', True), (''X08'', False),
      (''X09'', False), (''X10'', True), (''X11'', False), (''X12'', True),
      (''X13'', True), (''X14'', False), (''X15'', True), (''X16'', False)]"
  by (simp add: get_input_states_def read_all_def retry_count_def numeral_3_eq_3 readfrom_def
      expander_states_def input_entry_def upt_rec fmt_02d_def str_eval fresh_app_def board_def
      good_bus_def)

lemma second_inputs:
  "fst (get_input_states (hardware_manager (snd (snd (scan_iteration 0 [] fresh_app)))))
     = fst (get_input_states (hardware_manager fresh_app))"
  by (simp add: scan_iteration_def get_input_states_def read_all_def retry_count_def numeral_3_eq_3
      readfrom_def fresh_app_def board_def good_bus_def Let_def split: prod.splits)

text \<open>
  C6. One pass of the scan loop, with \<open>current_inputs\<close> the snapshot just read. When it
  equals the previously accepted snapshot, no notification is emitted and the state
  manager is untouched. When it differs, a notification is emitted, once, for exactly
  the entries of the new snapshot whose value is not the one the previous snapshot holds
  for that input (a different value, or none); the whole new snapshot is merged into
  \<open>input_states\<close>, so every entry just read is in the state afterwards; and the new
  snapshot becomes the accepted one.
\<close>

theorem scan_reports_changes_and_merges_all:
  assumes d: "distinct (map fst prev_inputs)"
    and cur: "get_input_states (hardware_manager app) = (current_inputs, hw')"
    and run: "scan_iteration now prev_inputs app = (notes, prev', app')"
  shows "(map_of current_inputs = map_of prev_inputs \<longrightarrow>
            notes = [] \<and> prev' = prev_inputs \<and> state_manager app' = state_manager app)
         \<and> (map_of current_inputs \<noteq> map_of prev_inputs \<longrightarrow>
              (\<forall>k v. (k, v) \<in> set notes \<longleftrightarrow>
                       map_of current_inputs k = Some v \<and> map_of prev_inputs k \<noteq> Some v)
              \<and> distinct (map fst notes)
              \<and> input_states (state_manager app') =
                  input_states (state_manager app) ++ map_of current_inputs
              \<and> (\<forall>k v. map_of current_inputs k = Some v \<longrightarrow>
                         input_states (state_manager app') k = Some v)
              \<and> prev' = current_inputs)"
proof -
  have dc: "distinct (map fst current_inputs)"
    using distinct_get_input_states [of "hardware_manager app"] cur by simp
  have eq: "dict_eq current_inputs prev_inputs \<longleftrightarrow> map_of current_inputs = map_of prev_inputs"
    by (rule dict_eq_iff [OF dc d])
  have run': "(notes, prev', app') =
      (if \<not> dict_eq current_inputs prev_inputs then
         (changed_entries prev_inputs current_inputs, current_inputs,
          app\<lparr> hardware_manager := hw',
               state_manager := update_inputs now (state_manager app) (map_of current_inputs) \<rparr>)
       else ([], prev_inputs, app\<lparr>hardware_manager := hw'\<rparr>))"
    using run cur by (simp add: scan_iteration_def)
  show ?thesis
  proof (cases "map_of current_inputs = map_of prev_inputs")
    case True
    with run' eq have "notes = []" "prev' = prev_inputs" "app' = app\<lparr>hardware_manager := hw'\<rparr>"
      by simp_all
    then show ?thesis using True by simp
  next
    case False
    with run' eq have n: "notes = changed_entries prev_inputs current_inputs"
      and p: "prev' = current_inputs"
      and a: "app' = app\<lparr> hardware_manager := hw',
              state_manager := update_inputs now (state_manager app) (map_of current_inputs) \<rparr>"
      by simp_all
    have 1: "\<forall>k v. (k, v) \<in> set notes \<longleftrightarrow>
               map_of current_inputs k = Some v \<and> map_of prev_inputs k \<noteq> Some v"
      unfolding n using changed_entries_iff [OF dc] by blast
    have 2: "distinct (map fst notes)"
      unfolding n by (rule distinct_changed_entries [OF dc])
    have 3: "input_states (state_manager app') =
               input_states (state_manager app) ++ map_of current_inputs"
      by (simp add: a update_inputs_def)
    have 4: "\<forall>k v. map_of current_inputs k = Some v \<longrightarrow>
               input_states (state_manager app') k = Some v"
      by (simp add: 3 map_add_Some_iff)
    show ?thesis using False 1 2 3 4 p by blast
  qed
qed

theorem scan_reports_changes_and_merges_all_witness:
  "distinct (map fst ([] :: (string \<times> bool) list))
   \<and> (''X01'', False) \<in> set (fst (scan_iteration 0 [] fresh_app))
   \<and> (''X02'', True) \<in> set (fst (scan_iteration 0 [] fresh_app))
   \<and> input_states (state_manager (snd (snd (scan_iteration 0 [] fresh_app)))) ''X16'' = Some False
   \<and> fst (snd (scan_iteration 0 [] fresh_app)) = fst (get_input_states (hardware_manager fresh_app))
   \<and> fst (scan_iteration 1 (fst (snd (scan_iteration 0 [] fresh_app)))
              (snd (snd (scan_iteration 0 [] fresh_app)))) = []
   \<and> state_manager (snd (snd (scan_iteration 1 (fst (snd (scan_iteration 0 [] fresh_app)))
              (snd (snd (scan_iteration 0 [] fresh_app))))))
       = state_manager (snd (snd (scan_iteration 0 [] fresh_app)))"
proof -
  let ?s1 = "scan_iteration 0 [] fresh_app"
  let ?s2 = "scan_iteration 1 (fst (snd ?s1)) (snd (snd ?s1))"
  have cur: "get_input_states (hardware_manager fresh_app) =
      (fst (get_input_states (hardware_manager fresh_app)),
       snd (get_input_states (hardware_manager fresh_app)))"
    by simp
  have run: "?s1 = (fst ?s1, fst (snd ?s1), snd (snd ?s1))"
    by simp
  have d: "distinct (map fst ([] :: (string \<times> bool) list))" by simp
  have ne: "map_of (fst (get_input_states (hardware_manager fresh_app))) \<noteq> map_of []"
  proof
    assume "map_of (fst (get_input_states (hardware_manager fresh_app))) = map_of []"
    then have "map_of (fst (get_input_states (hardware_manager fresh_app))) ''X01'' = None"
      by simp
    then show False by (simp add: fresh_inputs)
  qed
  have x1: "map_of (fst (get_input_states (hardware_manager fresh_app))) ''X01'' = Some False"
    and x2: "map_of (fst (get_input_states (hardware_manager fresh_app))) ''X02'' = Some True"
    and x16: "map_of (fst (get_input_states (hardware_manager fresh_app))) ''X16'' = Some False"
    by (simp_all add: fresh_inputs)
  from scan_reports_changes_and_merges_all [OF d cur run] ne
  have a: "(\<forall>k v. (k, v) \<in> set (fst ?s1) \<longleftrightarrow>
             map_of (fst (get_input_states (hardware_manager fresh_app))) k = Some v
             \<and> map_of [] k \<noteq> Some v)"
    and b: "(\<forall>k v. map_of (fst (get_input_states (hardware_manager fresh_app))) k = Some v \<longrightarrow>
             input_states (state_manager (snd (snd ?s1))) k = Some v)"
    and c: "fst (snd ?s1) = fst (get_input_states (hardware_manager fresh_app))"
    by blast+
  have d2: "distinct (map fst (fst (snd ?s1)))"
    by (simp only: c fresh_inputs) simp
  have cur2: "get_input_states (hardware_manager (snd (snd ?s1))) =
      (fst (snd ?s1), snd (get_input_states (hardware_manager (snd (snd ?s1)))))"
    using second_inputs c by (simp add: prod_eq_iff)
  have run2: "?s2 = (fst ?s2, fst (snd ?s2), snd (snd ?s2))"
    by simp
  from scan_reports_changes_and_merges_all [OF d2 cur2 run2]
  have e: "fst ?s2 = []" "state_manager (snd (snd ?s2)) = state_manager (snd (snd ?s1))"
    by simp_all
  show ?thesis using a b c e x1 x2 x16 by simp
qed

subsection \<open>Toggling a relay\<close>

lemma toggle_relay_known:
  assumes "states rc r = Some s"
  shows "toggle_relay rc r =
           Inr (\<not> s,
                rc\<lparr> relay1 := (if r = ''Relay1'' then (if \<not> s then 1 else 0) else relay1 rc),
                    relay2 := (if r \<noteq> ''Relay1'' \<and> r = ''Relay2'' then (if \<not> s then 1 else 0) else relay2 rc),
                    states := (states rc)(r \<mapsto> \<not> s) \<rparr>)"
  using assms by (simp add: toggle_relay_def set_relay_def)

lemma handle_relay_known:
  assumes "states (relay_controller (hardware_manager app)) r = Some s"
    and "relay_states (state_manager app) r = Some s0"
  shows "handle_relay_command now [(''type'', AStr ''toggle_relay''), (''channel'', AStr r)] app =
           (Inr (),
            (with_relays app (snd (projr (toggle_relay (relay_controller (hardware_manager app)) r))))
              \<lparr>state_manager := (state_manager app)
                 \<lparr>relay_states := (relay_states (state_manager app))(r \<mapsto> \<not> s), last_update := now\<rparr>\<rparr>)"
  using assms
  by (simp add: handle_relay_command_def dict_get_def toggle_relay_known update_relay_def)

lemma toggle_step:
  assumes rc: "states (relay_controller (hardware_manager app)) r = Some s"
    and sm: "relay_states (state_manager app) r = Some s0"
    and run: "process_command now (toggle_relay_command r) app = (resp, app')"
  shows "map_of resp ''status'' = Some (RStr ''success'')
         \<and> toggle_relay (relay_controller (hardware_manager app)) r
             = Inr (\<not> s, relay_controller (hardware_manager app'))
         \<and> states (relay_controller (hardware_manager app')) r = Some (\<not> s)
         \<and> relay_states (state_manager app') r = Some (\<not> s)
         \<and> (r = ''Relay1'' \<longrightarrow> relay1 (relay_controller (hardware_manager app')) = (if s then 0 else 1))
         \<and> (r = ''Relay2'' \<longrightarrow> relay2 (relay_controller (hardware_manager app')) = (if s then 0 else 1))"
proof -
  have "(resp, app') = finish [(''type'', AStr ''toggle_relay''), (''channel'', AStr r)]
          (handle_relay_command now [(''type'', AStr ''toggle_relay''), (''channel'', AStr r)] app)"
    using run by (auto simp: process_command_def toggle_relay_command_def dict_get_def Let_def)
  then have "resp = success_response [(''type'', AStr ''toggle_relay''), (''channel'', AStr r)]"
    and "app' = (with_relays app (snd (projr (toggle_relay (relay_controller (hardware_manager app)) r))))
              \<lparr>state_manager := (state_manager app)
                 \<lparr>relay_states := (relay_states (state_manager app))(r \<mapsto> \<not> s), last_update := now\<rparr>\<rparr>"
    by (simp_all add: handle_relay_known [OF rc sm] finish_def)
  then show ?thesis
    by (simp add: success_response_def with_relays_def toggle_relay_known [OF rc])
qed

text \<open>
  C9. For every relay \<open>r\<close> known to the relay controller (in state \<open>s\<close>) and to the state
  manager, two successive \<open>toggle_relay\<close> commands both succeed; the first toggle returns
  \<open>\<not> s\<close> and the second \<open>s\<close>, so the relay is back in its original state (and its pin at
  the level of that state), and afterwards the relay entry of the state manager, and of
  the snapshot, equals the state held by the relay controller.
\<close>

theorem toggle_relay_twice:
  assumes rc: "states (relay_controller (hardware_manager app)) r = Some s"
    and sm: "relay_states (state_manager app) r = Some s0"
    and run1: "process_command t1 (toggle_relay_command r) app = (resp1, app1)"
    and run2: "process_command t2 (toggle_relay_command r) app1 = (resp2, app2)"
  shows "map_of resp1 ''status'' = Some (RStr ''success'')
         \<and> map_of resp2 ''status'' = Some (RStr ''success'')
         \<and> toggle_relay (relay_controller (hardware_manager app)) r
             = Inr (\<not> s, relay_controller (hardware_manager app1))
         \<and> toggle_relay (relay_controller (hardware_manager app1)) r
             = Inr (s, relay_controller (hardware_manager app2))
         \<and> states (relay_controller (hardware_manager app1)) r = Some (\<not> s)
         \<and> states (relay_controller (hardware_manager app2)) r = Some s
         \<and> relay_states (state_manager app2) r = states (relay_controller (hardware_manager app2)) r
         \<and> snapshot_relay (get_state (state_manager app2)) r = Some s
         \<and> (r = ''Relay1'' \<longrightarrow> relay1 (relay_controller (hardware_manager app2)) = (if s then 1 else 0))
         \<and> (r = ''Relay2'' \<longrightarrow> relay2 (relay_controller (hardware_manager app2)) = (if s then 1 else 0))"
proof -
  note 1 = toggle_step [OF rc sm run1]
  from 1 have rc1: "states (relay_controller (hardware_manager app1)) r = Some (\<not> s)"
    and sm1: "relay_states (state_manager app1) r = Some (\<not> s)"
    by simp_all
  note 2 = toggle_step [OF rc1 sm1 run2]
  show ?thesis using 1 2 by (simp add: snapshot_relay_def get_state_def)
qed

theorem toggle_relay_twice_witness:
  "states (relay_controller (hardware_manager fresh_app)) ''Relay1'' = Some False
   \<and> relay_states (state_manager fresh_app) ''Relay1'' = Some False
   \<and> states (relay_controller (hardware_manager
        (snd (process_command 2 (toggle_relay_command ''Relay1'')
           (snd (process_command 1 (toggle_relay_command ''Relay1'') fresh_app)))))) ''Relay1'' = Some False
   \<and> relay_states (state_manager
        (snd (process_command 2 (toggle_relay_command ''Relay1'')
           (snd (process_command 1 (toggle_relay_command ''Relay1'') fresh_app))))) ''Relay1'' = Some False
   \<and> states (relay_controller (hardware_manager
        (snd (process_command 1 (toggle_relay_command ''Relay1'') fresh_app)))) ''Relay1'' = Some True"
proof -
  let ?a1 = "process_command 1 (toggle_relay_command ''Relay1'') fresh_app"
  let ?a2 = "process_command 2 (toggle_relay_command ''Relay1'') (snd ?a1)"
  have rc: "states (relay_controller (hardware_manager fresh_app)) ''Relay1'' = Some False"
    and sm: "relay_states (state_manager fresh_app) ''Relay1'' = Some False"
    by (simp_all add: board_eval)
  have run1: "?a1 = (fst ?a1, snd ?a1)" and run2: "?a2 = (fst ?a2, snd ?a2)" by simp_all
  show ?thesis
    using toggle_relay_twice [OF rc sm run1 run2] rc sm
    by (simp add: toggle_relay_known)
qed

subsection \<open>What the handlers can change\<close>

lemma update_dimmer_frame:
  "update_dimmer now sm ch lvl = Inr sm' \<Longrightarrow>
     relay_states sm' = relay_states sm \<and> input_states sm' = input_states sm
     \<and> dimmer_levels sm' = (dimmer_levels sm)(ch \<mapsto> lvl)
     \<and> last_non_zero_levels sm' =
         (if 0 < lvl then (last_non_zero_levels sm)(ch \<mapsto> lvl) else last_non_zero_levels sm)
     \<and> 0 \<le> lvl \<and> lvl \<le> 100"
  by (auto simp: update_dimmer_def split: if_splits)

lemma handle_dimmer_shape:
  "(\<exists>e. handle_dimmer_command now cmd app = (Inl e, app)) \<or>
   (\<exists>e bus'. handle_dimmer_command now cmd app = (Inl e, with_bus app bus')) \<or>
   (\<exists>bus' ch lvl sm'. update_dimmer now (state_manager app) ch lvl = Inr sm' \<and>
      handle_dimmer_command now cmd app = (Inr (), (with_bus app bus')\<lparr>state_manager := sm'\<rparr>))"
  unfolding handle_dimmer_command_def Let_def
  by (simp split: sum.split atom.split prod.split) blast

lemma handle_dimmer_effect:
  assumes "handle_dimmer_command now cmd app = (res, app')"
  shows "relay_controller (hardware_manager app') = relay_controller (hardware_manager app)
         \<and> relay_states (state_manager app') = relay_states (state_manager app)
         \<and> input_states (state_manager app') = input_states (state_manager app)
         \<and> (last_non_zero_levels (state_manager app') = last_non_zero_levels (state_manager app)
             \<or> (\<exists>ch lvl. 0 < lvl \<and> res = Inr ()
                   \<and> last_non_zero_levels (state_manager app')
                       = (last_non_zero_levels (state_manager app))(ch \<mapsto> lvl)
                   \<and> dimmer_levels (state_manager app')
                       = (dimmer_levels (state_manager app))(ch \<mapsto> lvl)))"
  using handle_dimmer_shape [of now cmd app]
proof (elim disjE exE conjE)
  fix e assume "handle_dimmer_command now cmd app = (Inl e, app)"
  then show ?thesis using assms by simp
next
  fix e bus' assume "handle_dimmer_command now cmd app = (Inl e, with_bus app bus')"
  then show ?thesis using assms by (auto simp: with_bus_def)
next
  fix bus' ch lvl sm'
  assume u: "update_dimmer now (state_manager app) ch lvl = Inr sm'"
    and "handle_dimmer_command now cmd app = (Inr (), (with_bus app bus')\<lparr>state_manager := sm'\<rparr>)"
  then have "res = Inr ()" "app' = (with_bus app bus')\<lparr>state_manager := sm'\<rparr>"
    using assms by simp_all
  then show ?thesis using update_dimmer_frame [OF u]
    by (cases "0 < lvl") (auto simp: with_bus_def)
qed

lemma set_relay_frame:
  "set_relay rc ch d = Inr rc' \<Longrightarrow> states rc' = (states rc)(ch \<mapsto> d)"
  by (auto simp: set_relay_def split: if_splits)

lemma update_relay_frame:
  "update_relay now sm ch d = Inr sm' \<Longrightarrow>
     relay_states sm' = (relay_states sm)(ch \<mapsto> d)
     \<and> dimmer_levels sm' = dimmer_levels sm
     \<and> last_non_zero_levels sm' = last_non_zero_levels sm
     \<and> input_states sm' = input_states sm"
  by (auto simp: update_relay_def split: if_splits)

lemma update_relay_known:
  "relay_states sm ch = Some cur \<Longrightarrow>
     update_relay now sm ch d = Inr (sm\<lparr>relay_states := (relay_states sm)(ch \<mapsto> d), last_update := now\<rparr>)"
  by (simp add: update_relay_def)

lemma handle_relay_shape:
  "(\<exists>e. handle_relay_command now cmd app = (Inl e, app)) \<or>
   (\<exists>ch d rc' sm'.
      set_relay (relay_controller (hardware_manager app)) ch d = Inr rc' \<and>
      update_relay now (state_manager app) ch d = Inr sm' \<and>
      handle_relay_command now cmd app = (Inr (), (with_relays app rc')\<lparr>state_manager := sm'\<rparr>))"
proof (cases "dict_get cmd ''channel''")
  case (AStr ch)
  show ?thesis
  proof (cases "relay_states (state_manager app) ch")
    case None
    then show ?thesis using AStr by (simp add: handle_relay_command_def)
  next
    case (Some cur)
    note upd = update_relay_known [OF Some]
    show ?thesis
    proof (cases "toggle_relay (relay_controller (hardware_manager app)) ch")
      case (Inl e)
      then show ?thesis using AStr Some by (simp add: handle_relay_command_def)
    next
      case (Inr r)
      obtain ns rc' where r: "r = (ns, rc')" by (cases r)
      have sr: "set_relay (relay_controller (hardware_manager app)) ch ns = Inr rc'"
        using Inr r by (auto simp: toggle_relay_def Let_def split: option.splits sum.splits)
      have "handle_relay_command now cmd app =
          (Inr (), (with_relays app rc')\<lparr>state_manager :=
             (state_manager app)\<lparr>relay_states := (relay_states (state_manager app))(ch \<mapsto> ns),
                                 last_update := now\<rparr>\<rparr>)"
        using AStr Some Inr r by (simp add: handle_relay_command_def upd)
      then show ?thesis using sr upd by blast
    qed
  qed
qed (simp_all add: handle_relay_command_def)

lemma mqtt_body_shape:
  "(\<exists>e. mqtt_command_body now topic p app = (Inl e, app)) \<or>
   mqtt_command_body now topic p app = (Inr (), app) \<or>
   (\<exists>e bus'. mqtt_command_body now topic p app = (Inl e, with_bus app bus')) \<or>
   (\<exists>bus' ch lvl sm' out.
      update_dimmer now (state_manager app) ch lvl = Inr sm' \<and>
      mqtt_command_body now topic p app =
        (Inr (), (with_bus app bus')\<lparr>state_manager := sm', mqtt := out\<rparr>)) \<or>
   (\<exists>ch d rc' sm' out.
      set_relay (relay_controller (hardware_manager app)) ch d = Inr rc' \<and>
      update_relay now (state_manager app) ch d = Inr sm' \<and>
      mqtt_command_body now topic p app =
        (Inr (), (with_relays app rc')\<lparr>state_manager := sm', mqtt := out\<rparr>))"
proof -
  consider (dimmer) "startswith topic (base_topic app @ ''/dimmer/'') \<and> endswith topic ''/set''"
    | (relay) "\<not> (startswith topic (base_topic app @ ''/dimmer/'') \<and> endswith topic ''/set'')"
        "startswith topic (base_topic app @ ''/relay/'') \<and> endswith topic ''/set''"
    | (other) "\<not> (startswith topic (base_topic app @ ''/dimmer/'') \<and> endswith topic ''/set'')"
        "\<not> (startswith topic (base_topic app @ ''/relay/'') \<and> endswith topic ''/set'')"
    by blast
  then show ?thesis
  proof cases
    case other
    show ?thesis
      by (simp only: mqtt_command_body_def Let_def if_not_P [OF other(1)] if_not_P [OF other(2)]) simp
  next
    case dimmer
    have body: "mqtt_command_body now topic p app =
        (case topic_index topic of
           Inl e \<Rightarrow> (Inl e, app)
         | Inr idx \<Rightarrow>
             (case resolve_level p of
                Inl e \<Rightarrow> (Inl e, app)
              | Inr level \<Rightarrow>
                  if 0 \<le> idx \<and> idx \<le> 15 then
                    (case level of
                       None \<Rightarrow> (Inl TypeError, app)
                     | Some l \<Rightarrow>
                         (case set_level (pca9685 (hardware_manager app)) idx (max 0 (min 100 l))
                                 (i2c (hardware_manager app)) of
                            (Inl e, bus') \<Rightarrow> (Inl e, with_bus app bus')
                          | (Inr _, bus') \<Rightarrow>
                              (case update_dimmer now (state_manager app) (pwm_key idx)
                                      (max 0 (min 100 l)) of
                                 Inl e \<Rightarrow> (Inl e, with_bus app bus')
                               | Inr sm' \<Rightarrow>
                                   (Inr (),
                                    (with_bus app bus')
                                      \<lparr> state_manager := sm',
                                        mqtt := map_option
                                          (\<lambda>out. publish_dimmer_state out idx (max 0 (min 100 l)))
                                          (mqtt app) \<rparr>))))
                  else (Inr (), app)))"
      by (simp only: mqtt_command_body_def Let_def if_P [OF dimmer])
    show ?thesis
      unfolding body
      by (simp split: sum.split option.split prod.split) blast
  next
    case relay
    have body: "mqtt_command_body now topic p app =
        (case topic_index topic of
           Inl e \<Rightarrow> (Inl e, app)
         | Inr idx \<Rightarrow>
             (case relay_states (state_manager app) (''Relay'' @ str_of_int idx) of
                None \<Rightarrow> (Inr (), app)
              | Some current \<Rightarrow>
                  (case set_relay (relay_controller (hardware_manager app))
                          (''Relay'' @ str_of_int idx) (resolve_desired p current) of
                     Inl e \<Rightarrow> (Inl e, app)
                   | Inr rc' \<Rightarrow>
                       (case update_relay now (state_manager app) (''Relay'' @ str_of_int idx)
                               (resolve_desired p current) of
                          Inl e \<Rightarrow> (Inl e, with_relays app rc')
                        | Inr sm' \<Rightarrow>
                            (Inr (),
                             (with_relays app rc')
                               \<lparr> state_manager := sm',
                                 mqtt := map_option
                                   (\<lambda>out. publish_relay_state out idx (resolve_desired p current))
                                   (mqtt app) \<rparr>)))))"
      by (simp only: mqtt_command_body_def Let_def if_not_P [OF relay(1)] if_P [OF relay(2)])
    show ?thesis
    proof (cases "topic_index topic")
      case (Inl e)
      then show ?thesis by (simp add: body)
    next
      case (Inr idx)
      define ch where "ch = ''Relay'' @ str_of_int idx"
      have body': "mqtt_command_body now topic p app =
             (case relay_states (state_manager app) ch of
                None \<Rightarrow> (Inr (), app)
              | Some current \<Rightarrow>
                  (case set_relay (relay_controller (hardware_manager app)) ch
                          (resolve_desired p current) of
                     Inl e \<Rightarrow> (Inl e, app)
                   | Inr rc' \<Rightarrow>
                       (case update_relay now (state_manager app) ch (resolve_desired p current) of
                          Inl e \<Rightarrow> (Inl e, with_relays app rc')
                        | Inr sm' \<Rightarrow>
                            (Inr (),
                             (with_relays app rc')
                               \<lparr> state_manager := sm',
                                 mqtt := map_option
                                   (\<lambda>out. publish_relay_state out idx (resolve_desired p current))
                                   (mqtt app) \<rparr>))))"
        unfolding ch_def body Inr by (simp only: sum.case)
      show ?thesis
      proof (cases "relay_states (state_manager app) ch")
        case None
        then show ?thesis by (simp add: body')
      next
        case (Some cur)
        note upd = update_relay_known [OF Some]
        show ?thesis
        proof (cases "set_relay (relay_controller (hardware_manager app)) ch (resolve_desired p cur)")
          case (Inl e)
          then show ?thesis using Some by (simp add: body')
        next
          case sr: (Inr rc')
          have "mqtt_command_body now topic p app =
              (Inr (), (with_relays app rc')\<lparr>state_manager :=
                  (state_manager app)\<lparr>relay_states := (relay_states (state_manager app))
                      (ch \<mapsto> resolve_desired p cur), last_update := now\<rparr>,
                  mqtt := map_option (\<lambda>out. publish_relay_state out idx (resolve_desired p cur)) (mqtt app)\<rparr>)"
            using Some sr by (simp add: body' upd)
          then show ?thesis using sr upd by blast
        qed
      qed
    qed
  qed
qed

lemma process_command_cases:
  "process_command now command app = (error_response AttributeError, app)
   \<or> process_command now command app = (error_response ValueError, app)
   \<or> process_command now command app = (get_state (state_manager app), app)
   \<or> (\<exists>cmd. process_command now command app = finish cmd (handle_dimmer_command now cmd app))
   \<or> (\<exists>cmd. process_command now command app = finish cmd (handle_relay_command now cmd app))"
  by (cases command) (auto simp: process_command_def Let_def)

lemma finish_parts:
  "snd (finish cmd r) = snd r"
  "map_of (fst (finish cmd r)) ''status'' =
     Some (RStr (case fst r of Inl e \<Rightarrow> ''error'' | Inr u \<Rightarrow> ''success''))"
  by (auto simp: finish_def success_response_def error_response_def split: prod.splits sum.splits)

lemma relays_agree_frame:
  assumes "relays_agree app"
    and "states (relay_controller (hardware_manager app')) = states (relay_controller (hardware_manager app))"
    and "relay_states (state_manager app') = relay_states (state_manager app)"
  shows "relays_agree app'"
  using assms by (simp add: relays_agree_def)

lemma relays_agree_both:
  assumes "relays_agree app"
    and "states (relay_controller (hardware_manager app')) =
           (states (relay_controller (hardware_manager app)))(ch \<mapsto> d)"
    and "relay_states (state_manager app') = (relay_states (state_manager app))(ch \<mapsto> d)"
  shows "relays_agree app'"
  using assms by (simp add: relays_agree_def)

lemma relays_agree_dimmer:
  assumes "relays_agree app"
  shows "relays_agree (snd (handle_dimmer_command now cmd app))"
proof -
  obtain res app' where r: "handle_dimmer_command now cmd app = (res, app')" by fastforce
  show ?thesis
    using handle_dimmer_effect [OF r] assms by (simp add: r relays_agree_def)
qed

lemma relays_agree_relay:
  assumes "relays_agree app"
  shows "relays_agree (snd (handle_relay_command now cmd app))"
  using handle_relay_shape [of now cmd app]
proof (elim disjE exE conjE)
  fix e assume "handle_relay_command now cmd app = (Inl e, app)"
  then show ?thesis using assms by simp
next
  fix ch d rc' sm'
  assume sr: "set_relay (relay_controller (hardware_manager app)) ch d = Inr rc'"
    and ur: "update_relay now (state_manager app) ch d = Inr sm'"
    and h: "handle_relay_command now cmd app = (Inr (), (with_relays app rc')\<lparr>state_manager := sm'\<rparr>)"
  show ?thesis
    unfolding h snd_conv
    by (rule relays_agree_both [OF assms, of _ ch d])
       (simp_all add: with_relays_def set_relay_frame [OF sr] update_relay_frame [OF ur])
qed

lemma relays_agree_process:
  assumes "relays_agree app"
  shows "relays_agree (snd (process_command now command app))"
  using process_command_cases [of now command app] assms
  by (auto simp: finish_parts relays_agree_dimmer relays_agree_relay)

lemma relays_agree_mqtt:
  assumes "relays_agree app"
  shows "relays_agree (on_mqtt_command now topic p app)"
  unfolding on_mqtt_command_def
  using mqtt_body_shape [of now topic p app]
proof (elim disjE exE conjE)
  fix e assume "mqtt_command_body now topic p app = (Inl e, app)"
  then show "relays_agree (snd (mqtt_command_body now topic p app))" using assms by simp
next
  assume "mqtt_command_body now topic p app = (Inr (), app)"
  then show "relays_agree (snd (mqtt_command_body now topic p app))" using assms by simp
next
  fix e bus' assume h: "mqtt_command_body now topic p app = (Inl e, with_bus app bus')"
  show "relays_agree (snd (mqtt_command_body now topic p app))"
    unfolding h snd_conv by (rule relays_agree_frame [OF assms]) (simp_all add: with_bus_def)
next
  fix bus' ch lvl sm' out
  assume u: "update_dimmer now (state_manager app) ch lvl = Inr sm'"
    and h: "mqtt_command_body now topic p app =
              (Inr (), (with_bus app bus')\<lparr>state_manager := sm', mqtt := out\<rparr>)"
  show "relays_agree (snd (mqtt_command_body now topic p app))"
    unfolding h snd_conv
    by (rule relays_agree_frame [OF assms]) (simp_all add: with_bus_def update_dimmer_frame [OF u])
next
  fix ch d rc' sm' out
  assume sr: "set_relay (relay_controller (hardware_manager app)) ch d = Inr rc'"
    and ur: "update_relay now (state_manager app) ch d = Inr sm'"
    and h: "mqtt_command_body now topic p app =
              (Inr (), (with_relays app rc')\<lparr>state_manager := sm', mqtt := out\<rparr>)"
  show "relays_agree (snd (mqtt_command_body now topic p app))"
    unfolding h snd_conv
    by (rule relays_agree_both [OF assms, of _ ch d])
       (simp_all add: with_relays_def set_relay_frame [OF sr] update_relay_frame [OF ur])
qed

lemma scan_frame:
  "state_manager (snd (snd (scan_iteration now prev app))) = state_manager app
   \<or> state_manager (snd (snd (scan_iteration now prev app)))
        = update_inputs now (state_manager app) (map_of (fst (get_input_states (hardware_manager app))))"
  by (simp add: scan_iteration_def split: prod.splits)

lemma get_input_states_relays:
  "relay_controller (snd (get_input_states hw)) = relay_controller hw"
proof -
  obtain r1 bus1 where 1: "read_all (pcf_inputs_1_8 hw) (i2c hw) = (r1, bus1)" by fastforce
  obtain r2 bus2 where 2: "read_all (pcf_inputs_9_16 hw) bus1 = (r2, bus2)" by fastforce
  show ?thesis by (simp add: get_input_states_unfold [OF 1 2])
qed

lemma scan_hw_frame:
  "relay_controller (hardware_manager (snd (snd (scan_iteration now prev app))))
     = relay_controller (hardware_manager app)"
proof -
  have "hardware_manager (snd (snd (scan_iteration now prev app)))
          = snd (get_input_states (hardware_manager app))"
    by (simp add: scan_iteration_def split: prod.splits)
  then show ?thesis by (simp add: get_input_states_relays)
qed

lemma relays_agree_scan:
  assumes "relays_agree app"
  shows "relays_agree (snd (snd (scan_iteration now prev app)))"
  using scan_frame [of now prev app] scan_hw_frame [of now prev app] assms
  by (auto simp: relays_agree_def update_inputs_def)

lemma relays_agree_start:
  assumes "state_manager app = state_manager_init now"
    and "relay_controller (hardware_manager app) = relay_controller_init"
  shows "relays_agree app"
  using assms by (simp add: relays_agree_def state_manager_init_def relay_controller_init_def)

subsection \<open>The two copies of the relay state\<close>

text \<open>
  C10. The relay controller and the state manager agree on \<open>Relay1\<close> and \<open>Relay2\<close>
  when both are freshly initialised; every direct command (the \<open>toggle_relay\<close> command
  among them), every MQTT command (the relay set and toggle handler among them) and every
  input scan preserves the agreement; hence the two copies agree in every state the
  application can reach.
\<close>

theorem relay_copies_agree:
  "(state_manager app0 = state_manager_init now0
      \<and> relay_controller (hardware_manager app0) = relay_controller_init \<longrightarrow> relays_agree app0)
   \<and> (relays_agree app \<longrightarrow>
         relays_agree (snd (process_command now command app))
         \<and> relays_agree (on_mqtt_command now topic p app)
         \<and> relays_agree (snd (snd (scan_iteration now prev app))))
   \<and> (reachable app1 \<longrightarrow> relays_agree app1)"
proof -
  have "relays_agree a" if "reachable a" for a
    using that
    by (induction rule: reachable.induct)
       (simp_all add: relays_agree_start relays_agree_process relays_agree_mqtt relays_agree_scan)
  then show ?thesis
    using relays_agree_start [of app0 now0] relays_agree_process [of app now command]
      relays_agree_mqtt [of app now topic p] relays_agree_scan [of app now prev]
    by blast
qed

theorem relay_copies_agree_witness:
  "state_manager fresh_app = state_manager_init 0
   \<and> relay_controller (hardware_manager fresh_app) = relay_controller_init
   \<and> relays_agree fresh_app
   \<and> relays_agree (on_mqtt_command 1 ''kc868-ap/relay/2/set'' (PAtom (AStr ''ON'')) fresh_app)
   \<and> relays_agree (snd (process_command 2 (toggle_relay_command ''Relay1'')
         (on_mqtt_command 1 ''kc868-ap/relay/2/set'' (PAtom (AStr ''ON'')) fresh_app)))"
proof -
  have s: "state_manager fresh_app = state_manager_init 0"
    and r: "relay_controller (hardware_manager fresh_app) = relay_controller_init"
    by (simp_all add: fresh_app_def board_def)
  have "reachable fresh_app" by (rule reachable.start [OF s r])
  then have 1: "reachable (on_mqtt_command 1 ''kc868-ap/relay/2/set'' (PAtom (AStr ''ON'')) fresh_app)"
    by (rule reachable.bus_message)
  then have 2: "reachable (snd (process_command 2 (toggle_relay_command ''Relay1'')
         (on_mqtt_command 1 ''kc868-ap/relay/2/set'' (PAtom (AStr ''ON'')) fresh_app)))"
    by (rule reachable.direct)
  show ?thesis
    using relay_copies_agree [of fresh_app 0 fresh_app 1 "PAtom ANone" "''''" "PAtom ANone" "[]"
        "on_mqtt_command 1 ''kc868-ap/relay/2/set'' (PAtom (AStr ''ON'')) fresh_app"]
      relay_copies_agree [of fresh_app 0 fresh_app 1 "PAtom ANone" "''''" "PAtom ANone" "[]"
        "snd (process_command 2 (toggle_relay_command ''Relay1'')
         (on_mqtt_command 1 ''kc868-ap/relay/2/set'' (PAtom (AStr ''ON'')) fresh_app))"]
      s r 1 2
    by blast
qed

subsection \<open>The last non-zero level\<close>

lemma lnz_dimmer:
  assumes "handle_dimmer_command now cmd app = (res, app')"
    and "last_non_zero_levels (state_manager app') k \<noteq> last_non_zero_levels (state_manager app) k"
  shows "\<exists>level. 0 < level \<and> res = Inr ()
           \<and> dimmer_levels (state_manager app') k = Some level
           \<and> last_non_zero_levels (state_manager app') k = Some level"
proof -
  from handle_dimmer_effect [OF assms(1)] assms(2)
  obtain ch lvl where *: "0 < lvl" "res = Inr ()"
    "last_non_zero_levels (state_manager app') = (last_non_zero_levels (state_manager app))(ch \<mapsto> lvl)"
    "dimmer_levels (state_manager app') = (dimmer_levels (state_manager app))(ch \<mapsto> lvl)"
    by auto
  then have "k = ch" using assms(2) by (auto split: if_splits)
  then show ?thesis using * by simp
qed

lemma lnz_relay:
  "last_non_zero_levels (state_manager (snd (handle_relay_command now cmd app)))
     = last_non_zero_levels (state_manager app)"
  using handle_relay_shape [of now cmd app]
  by (auto simp: update_relay_frame)

lemma lnz_process:
  assumes "last_non_zero_levels (state_manager (snd (process_command now command app))) k
             \<noteq> last_non_zero_levels (state_manager app) k"
  shows "\<exists>level. 0 < level
           \<and> dimmer_levels (state_manager (snd (process_command now command app))) k = Some level
           \<and> last_non_zero_levels (state_manager (snd (process_command now command app))) k = Some level
           \<and> map_of (fst (process_command now command app)) ''status'' = Some (RStr ''success'')"
  using process_command_cases [of now command app]
proof (elim disjE exE)
  fix cmd assume p: "process_command now command app = finish cmd (handle_dimmer_command now cmd app)"
  obtain res app' where h: "handle_dimmer_command now cmd app = (res, app')" by fastforce
  have "last_non_zero_levels (state_manager app') k \<noteq> last_non_zero_levels (state_manager app) k"
    using assms by (simp add: p finish_parts h)
  from lnz_dimmer [OF h this] show ?thesis
    by (auto simp: p finish_parts h)
next
  fix cmd assume p: "process_command now command app = finish cmd (handle_relay_command now cmd app)"
  then show ?thesis using assms by (simp add: finish_parts lnz_relay)
qed (use assms in simp_all)

lemma lnz_mqtt:
  assumes "last_non_zero_levels (state_manager (on_mqtt_command now topic p app)) k
             \<noteq> last_non_zero_levels (state_manager app) k"
  shows "\<exists>level. 0 < level
           \<and> dimmer_levels (state_manager (on_mqtt_command now topic p app)) k = Some level
           \<and> last_non_zero_levels (state_manager (on_mqtt_command now topic p app)) k = Some level
           \<and> fst (mqtt_command_body now topic p app) = Inr ()"
  using mqtt_body_shape [of now topic p app]
proof (elim disjE exE conjE)
  fix bus' ch lvl sm' out
  assume u: "update_dimmer now (state_manager app) ch lvl = Inr sm'"
    and h: "mqtt_command_body now topic p app =
              (Inr (), (with_bus app bus')\<lparr>state_manager := sm', mqtt := out\<rparr>)"
  note f = update_dimmer_frame [OF u]
  have ne: "last_non_zero_levels sm' k \<noteq> last_non_zero_levels (state_manager app) k"
    using assms by (simp add: on_mqtt_command_def h)
  then have "0 < lvl" "k = ch" using f by (auto split: if_splits)
  then show ?thesis using f by (simp add: on_mqtt_command_def h)
next
  fix ch d rc' sm' out
  assume ur: "update_relay now (state_manager app) ch d = Inr sm'"
    and h: "mqtt_command_body now topic p app =
              (Inr (), (with_relays app rc')\<lparr>state_manager := sm', mqtt := out\<rparr>)"
  then show ?thesis using assms update_relay_frame [OF ur] by (simp add: on_mqtt_command_def h)
qed (use assms in \<open>simp_all add: on_mqtt_command_def with_bus_def\<close>)

lemma lnz_scan:
  "last_non_zero_levels (state_manager (snd (snd (scan_iteration now prev app))))
     = last_non_zero_levels (state_manager app)"
  using scan_frame [of now prev app] by (auto simp: update_inputs_def)

text \<open>
  C7. For every channel key \<open>k\<close>: if a direct command or an MQTT command leaves
  \<open>last_non_zero_levels[k]\<close> different from what it was, then the command succeeded and
  set \<open>dimmer_levels[k]\<close> to a level greater than 0, which is also the new
  \<open>last_non_zero_levels[k]\<close>; an input scan never changes \<open>last_non_zero_levels\<close>; and a
  write of level 0 to a channel sets its dimmer level to 0 and leaves
  \<open>last_non_zero_levels\<close> as it was.
\<close>

theorem last_non_zero_only_by_positive_write:
  "(last_non_zero_levels (state_manager (snd (process_command now command app))) k
      \<noteq> last_non_zero_levels (state_manager app) k \<longrightarrow>
    (\<exists>level. 0 < level
       \<and> dimmer_levels (state_manager (snd (process_command now command app))) k = Some level
       \<and> last_non_zero_levels (state_manager (snd (process_command now command app))) k = Some level
       \<and> map_of (fst (process_command now command app)) ''status'' = Some (RStr ''success'')))
   \<and> (last_non_zero_levels (state_manager (on_mqtt_command now topic p app)) k
        \<noteq> last_non_zero_levels (state_manager app) k \<longrightarrow>
      (\<exists>level. 0 < level
         \<and> dimmer_levels (state_manager (on_mqtt_command now topic p app)) k = Some level
         \<and> last_non_zero_levels (state_manager (on_mqtt_command now topic p app)) k = Some level
         \<and> fst (mqtt_command_body now topic p app) = Inr ()))
   \<and> last_non_zero_levels (state_manager (snd (snd (scan_iteration now prev app))))
        = last_non_zero_levels (state_manager app)
   \<and> (\<exists>sm'. update_dimmer now sm ch 0 = Inr sm' \<and> dimmer_levels sm' ch = Some 0
         \<and> last_non_zero_levels sm' = last_non_zero_levels sm)"
proof -
  have "\<exists>sm'. update_dimmer now sm ch 0 = Inr sm' \<and> dimmer_levels sm' ch = Some 0
         \<and> last_non_zero_levels sm' = last_non_zero_levels sm"
    by (simp add: update_dimmer_def)
  then show ?thesis
    using lnz_process [of now command app k] lnz_mqtt [of now topic p app k] lnz_scan [of now prev app]
    by blast
qed

theorem last_non_zero_only_by_positive_write_witness:
  "last_non_zero_levels (state_manager (snd (process_command 1 (set_dimmer_command ''PWM3'' 42) fresh_app))) ''PWM3''
     \<noteq> last_non_zero_levels (state_manager fresh_app) ''PWM3''
   \<and> dimmer_levels (state_manager (snd (process_command 1 (set_dimmer_command ''PWM3'' 42) fresh_app))) ''PWM3''
       = Some 42
   \<and> map_of (fst (process_command 1 (set_dimmer_command ''PWM3'' 42) fresh_app)) ''status''
       = Some (RStr ''success'')"
proof -
  let ?r = "process_command 1 (set_dimmer_command ''PWM3'' 42) fresh_app"
  have after: "last_non_zero_levels (state_manager (snd ?r)) ''PWM3'' = Some 42"
    by (simp add: direct_eval parse_eval bus_eval board_eval)
  have before: "last_non_zero_levels (state_manager fresh_app) ''PWM3'' = Some 100"
    by (simp add: board_eval pwm_key_def str_eval upt_rec)
  from after before
  have ne: "last_non_zero_levels (state_manager (snd ?r)) ''PWM3''
              \<noteq> last_non_zero_levels (state_manager fresh_app) ''PWM3''"
    by simp
  with last_non_zero_only_by_positive_write [of 1 "set_dimmer_command ''PWM3'' 42" fresh_app "''PWM3''"]
  obtain level where "dimmer_levels (state_manager (snd ?r)) ''PWM3'' = Some level"
    "last_non_zero_levels (state_manager (snd ?r)) ''PWM3'' = Some level"
    "map_of (fst ?r) ''status'' = Some (RStr ''success'')"
    by blast
  then show ?thesis using after ne by simp
qed

subsection \<open>Dimmer commands from the bus\<close>










end
